theory Spec2Isabelle
  imports Complex_Main
begin

section \<open>JavaScript numbers\<close>

text \<open>
  Every \<open>number\<close> of the dashboard is an IEEE-754 binary64 value. The model keeps the
  special values apart from the finite ones: \<open>NaN\<close>, the two infinities, and a finite
  value carried as the real number it denotes. Every arithmetic operation computes the
  exact real result and rounds it to binary64 (\<open>fl\<close>): to the nearest value with a 53-bit
  significand, a tie going to the even significand (\<open>rnd\<close>), with gradual underflow below
  \<open>2\<^sup>-\<^sup>1\<^sup>0\<^sup>2\<^sup>2\<close>, and to an infinity from \<open>2\<^sup>1\<^sup>0\<^sup>2\<^sup>4 - 2\<^sup>9\<^sup>7\<^sup>0\<close> on, the midpoint between the largest
  finite value and \<open>2\<^sup>1\<^sup>0\<^sup>2\<^sup>4\<close>. A division by zero and the undefined forms (\<open>0/0\<close>,
  \<open>Infinity - Infinity\<close>, \<open>Infinity * 0\<close>) follow the standard. A decimal literal of the
  source that is no binary64 value denotes its rounding (\<open>rnd 0.2\<close> for \<open>0.2\<close>). One thing
  is abstracted: zero has no sign (a zero divisor counts as \<open>+0\<close>, which is what an array
  length or a sum started at \<open>0\<close> is).
\<close>

datatype jsnum = Fin real | PInf | NInf | NaN

definition dbl_limit :: real where
  "dbl_limit = 2 ^ 1024 - 2 ^ 970"

text \<open>
  The exponent of the binade of \<open>x\<close> (that of the subnormal numbers for a small \<open>x\<close>) and
  the distance between neighbouring binary64 values there.
\<close>

definition expo :: "real \<Rightarrow> int" where
  "expo x = max (- 1022) \<lfloor>log 2 \<bar>x\<bar>\<rfloor>"

definition ulp :: "real \<Rightarrow> real" where
  "ulp x = 2 powr real_of_int (expo x - 52)"

text \<open>The nearest integer, a tie going to the even one.\<close>

definition roundEven :: "real \<Rightarrow> int" where
  "roundEven q =
     (if q - of_int \<lfloor>q\<rfloor> < 1 / 2 then \<lfloor>q\<rfloor>
      else if 1 / 2 < q - of_int \<lfloor>q\<rfloor> then \<lfloor>q\<rfloor> + 1
      else if even \<lfloor>q\<rfloor> then \<lfloor>q\<rfloor>
      else \<lfloor>q\<rfloor> + 1)"

definition rnd :: "real \<Rightarrow> real" where
  "rnd x = sgn x * (of_int (roundEven (\<bar>x\<bar> / ulp x)) * ulp x)"

definition fl :: "real \<Rightarrow> jsnum" where
  "fl x =
     (if dbl_limit \<le> x then PInf else if x \<le> - dbl_limit then NInf else Fin (rnd x))"

fun js_neg :: "jsnum \<Rightarrow> jsnum" where
  "js_neg (Fin a) = Fin (- a)"
| "js_neg PInf = NInf"
| "js_neg NInf = PInf"
| "js_neg NaN = NaN"

fun js_add :: "jsnum \<Rightarrow> jsnum \<Rightarrow> jsnum" where
  "js_add (Fin a) (Fin b) = fl (a + b)"
| "js_add NaN _ = NaN"
| "js_add _ NaN = NaN"
| "js_add PInf NInf = NaN"
| "js_add NInf PInf = NaN"
| "js_add PInf _ = PInf"
| "js_add _ PInf = PInf"
| "js_add NInf _ = NInf"
| "js_add _ NInf = NInf"

definition js_sub :: "jsnum \<Rightarrow> jsnum \<Rightarrow> jsnum" where
  "js_sub a b = js_add a (js_neg b)"

fun js_mul :: "jsnum \<Rightarrow> jsnum \<Rightarrow> jsnum" where
  "js_mul (Fin a) (Fin b) = fl (a * b)"
| "js_mul NaN _ = NaN"
| "js_mul _ NaN = NaN"
| "js_mul PInf (Fin b) = (if b = 0 then NaN else if 0 < b then PInf else NInf)"
| "js_mul NInf (Fin b) = (if b = 0 then NaN else if 0 < b then NInf else PInf)"
| "js_mul (Fin a) PInf = (if a = 0 then NaN else if 0 < a then PInf else NInf)"
| "js_mul (Fin a) NInf = (if a = 0 then NaN else if 0 < a then NInf else PInf)"
| "js_mul PInf PInf = PInf"
| "js_mul NInf NInf = PInf"
| "js_mul PInf NInf = NInf"
| "js_mul NInf PInf = NInf"

fun js_div :: "jsnum \<Rightarrow> jsnum \<Rightarrow> jsnum" where
  "js_div (Fin a) (Fin b) =
     (if b = 0 then (if a = 0 then NaN else if 0 < a then PInf else NInf)
      else fl (a / b))"
| "js_div NaN _ = NaN"
| "js_div _ NaN = NaN"
| "js_div (Fin a) PInf = Fin 0"
| "js_div (Fin a) NInf = Fin 0"
| "js_div PInf (Fin b) = (if 0 \<le> b then PInf else NInf)"
| "js_div NInf (Fin b) = (if 0 \<le> b then NInf else PInf)"
| "js_div PInf PInf = NaN"
| "js_div PInf NInf = NaN"
| "js_div NInf PInf = NaN"
| "js_div NInf NInf = NaN"

text \<open>Strict equality \<open>===\<close> and \<open>>\<close> on numbers: every comparison with \<open>NaN\<close> is false.\<close>

fun js_eq :: "jsnum \<Rightarrow> jsnum \<Rightarrow> bool" where
  "js_eq NaN _ = False"
| "js_eq _ NaN = False"
| "js_eq a b = (a = b)"

fun js_gt :: "jsnum \<Rightarrow> jsnum \<Rightarrow> bool" where
  "js_gt NaN _ = False"
| "js_gt _ NaN = False"
| "js_gt (Fin a) (Fin b) = (b < a)"
| "js_gt PInf PInf = False"
| "js_gt PInf _ = True"
| "js_gt NInf _ = False"
| "js_gt (Fin a) NInf = True"
| "js_gt (Fin a) PInf = False"

section \<open>src/lib/utils.ts\<close>

text \<open>
  \<^verbatim>\<open>if (oldValue === 0) return newValue > 0 ? 100 : 0;
  return ((newValue - oldValue) / oldValue) * 100;\<close>
\<close>

definition calculateChange :: "jsnum \<Rightarrow> jsnum \<Rightarrow> jsnum" where
  "calculateChange oldValue newValue =
     (if js_eq oldValue (Fin 0) then (if js_gt newValue (Fin 0) then Fin 100 else Fin 0)
      else js_mul (js_div (js_sub newValue oldValue) oldValue) (Fin 100))"

section \<open>Metric points and Array.prototype.slice\<close>

text \<open>A \<open>Date\<close> is its epoch time in milliseconds.\<close>

record Metric =
  metricId :: string
  timestamp :: int
  revenue :: jsnum
  activeUsers :: jsnum
  engagementRate :: jsnum

record Summary =
  totalRevenue :: jsnum
  totalUsers :: jsnum
  avgEngagement :: jsnum
  revenueChange :: jsnum
  usersChange :: jsnum
  engagementChange :: jsnum

text \<open>
  \<open>xs.slice(start, end)\<close> for integral arguments: a negative index counts from the end
  and is clamped at \<open>0\<close>, a non-negative one is clamped at the length, a missing \<open>end\<close>
  is the length. \<open>-0\<close> is the integer \<open>0\<close>, so \<open>xs.slice(-0)\<close> is the whole array.
\<close>

definition relIndex :: "int \<Rightarrow> int \<Rightarrow> int" where
  "relIndex len i = (if i < 0 then max (len + i) 0 else min i len)"

definition slice :: "'a list \<Rightarrow> int \<Rightarrow> int option \<Rightarrow> 'a list" where
  "slice xs start fin =
     (let len = int (length xs);
          k = relIndex len start;
          e = (case fin of None \<Rightarrow> len | Some r \<Rightarrow> relIndex len r)
      in take (nat (e - k)) (drop (nat k) xs))"

section \<open>src/lib/data-generator.ts: calculateSummary\<close>

text \<open>
  \<open>Math.floor(metrics.length * 0.2)\<close>: the floor of the rounded product of the length and
  the binary64 value of \<open>0.2\<close>. An array length is below \<open>2\<^sup>3\<^sup>2\<close>, so the product is finite.
\<close>

definition splitIndex :: "nat \<Rightarrow> int" where
  "splitIndex n = \<lfloor>rnd (real n * rnd 0.2)\<rfloor>"

definition firstSegment :: "Metric list \<Rightarrow> Metric list" where
  "firstSegment metrics = slice metrics 0 (Some (splitIndex (length metrics)))"

definition lastSegment :: "Metric list \<Rightarrow> Metric list" where
  "lastSegment metrics = slice metrics (- splitIndex (length metrics)) None"

text \<open>\<open>seg.reduce((sum, m) => sum + m.field, 0) / seg.length\<close>\<close>

definition reduceSum :: "(Metric \<Rightarrow> jsnum) \<Rightarrow> Metric list \<Rightarrow> jsnum" where
  "reduceSum field seg = foldl (\<lambda>sum m. js_add sum (field m)) (Fin 0) seg"

definition segAvg :: "(Metric \<Rightarrow> jsnum) \<Rightarrow> Metric list \<Rightarrow> jsnum" where
  "segAvg field seg = js_div (reduceSum field seg) (Fin (real (length seg)))"

definition calculateSummary :: "Metric list \<Rightarrow> Summary" where
  "calculateSummary metrics =
     (if length metrics = 0 then
        \<lparr> totalRevenue = Fin 0, totalUsers = Fin 0, avgEngagement = Fin 0,
          revenueChange = Fin 0, usersChange = Fin 0, engagementChange = Fin 0 \<rparr>
      else
        let avgFirstRevenue = segAvg revenue (firstSegment metrics);
            avgLastRevenue = segAvg revenue (lastSegment metrics);
            avgFirstUsers = segAvg activeUsers (firstSegment metrics);
            avgLastUsers = segAvg activeUsers (lastSegment metrics);
            avgFirstEngagement = segAvg engagementRate (firstSegment metrics);
            avgLastEngagement = segAvg engagementRate (lastSegment metrics)
        in \<lparr> totalRevenue = reduceSum revenue metrics,
             totalUsers = activeUsers (metrics ! (length metrics - 1)),
             avgEngagement =
               js_div (reduceSum engagementRate metrics) (Fin (real (length metrics))),
             revenueChange =
               js_mul (js_div (js_sub avgLastRevenue avgFirstRevenue) avgFirstRevenue) (Fin 100),
             usersChange =
               js_mul (js_div (js_sub avgLastUsers avgFirstUsers) avgFirstUsers) (Fin 100),
             engagementChange =
               js_mul (js_div (js_sub avgLastEngagement avgFirstEngagement) avgFirstEngagement)
                 (Fin 100) \<rparr>)"


text \<open>
  The percentage change as the specification words it, over two given segments:
  \<open>(avg(lastSegment) - avg(firstSegment)) / avg(firstSegment) * 100\<close>, the average of a
  segment being the sum of the field over its length.
\<close>

definition changePct :: "(Metric \<Rightarrow> jsnum) \<Rightarrow> Metric list \<Rightarrow> Metric list \<Rightarrow> jsnum" where
  "changePct field firstSeg lastSeg =
     js_mul (js_div (js_sub (segAvg field lastSeg) (segAvg field firstSeg)) (segAvg field firstSeg))
       (Fin 100)"



text \<open>A literal fixture point with finite values.\<close>

definition point :: "int \<Rightarrow> real \<Rightarrow> real \<Rightarrow> real \<Rightarrow> Metric" where
  "point t r u e =
     \<lparr> metricId = ''m'', timestamp = t, revenue = Fin r, activeUsers = Fin u,
       engagementRate = Fin e \<rparr>"

section \<open>Math functions\<close>

text \<open>
  \<open>Math.sin\<close>, \<open>Math.round\<close> (nearest integer, ties upwards), \<open>Math.max\<close>, \<open>Math.min\<close>,
  \<open>Math.pow\<close> with a loop counter as exponent, \<open>Math.PI\<close>, and \<open>Number(x.toFixed(2))\<close>
  (the decimal with two digits nearest to the magnitude, ties upwards, read back as a
  binary64 value; numbers from \<open>10\<^sup>2\<^sup>1\<close> on are printed unrounded). The standard leaves the
  last bit of \<open>Math.sin\<close> and \<open>Math.pow\<close> to the implementation; they are taken as the
  rounded exact results.
\<close>

definition Math_PI :: real where
  "Math_PI = rnd pi"

fun js_sin :: "jsnum \<Rightarrow> jsnum" where
  "js_sin (Fin a) = Fin (rnd (sin a))"
| "js_sin _ = NaN"

fun js_round :: "jsnum \<Rightarrow> jsnum" where
  "js_round (Fin a) = Fin (of_int \<lfloor>a + 1 / 2\<rfloor>)"
| "js_round v = v"

fun js_max :: "jsnum \<Rightarrow> jsnum \<Rightarrow> jsnum" where
  "js_max NaN _ = NaN"
| "js_max _ NaN = NaN"
| "js_max PInf _ = PInf"
| "js_max _ PInf = PInf"
| "js_max NInf b = b"
| "js_max a NInf = a"
| "js_max (Fin a) (Fin b) = Fin (max a b)"

fun js_min :: "jsnum \<Rightarrow> jsnum \<Rightarrow> jsnum" where
  "js_min NaN _ = NaN"
| "js_min _ NaN = NaN"
| "js_min NInf _ = NInf"
| "js_min _ NInf = NInf"
| "js_min PInf b = b"
| "js_min a PInf = a"
| "js_min (Fin a) (Fin b) = Fin (min a b)"

fun js_pow :: "jsnum \<Rightarrow> nat \<Rightarrow> jsnum" where
  "js_pow b 0 = Fin 1"
| "js_pow (Fin a) n = fl (a ^ n)"
| "js_pow NaN n = NaN"
| "js_pow PInf n = PInf"
| "js_pow NInf n = (if even n then PInf else NInf)"

fun js_toFixed2 :: "jsnum \<Rightarrow> jsnum" where
  "js_toFixed2 (Fin a) =
     (if 10 ^ 21 \<le> \<bar>a\<bar> then Fin a
      else if a < 0 then Fin (rnd (- (of_int \<lfloor>- a * 100 + 1 / 2\<rfloor> / 100)))
      else Fin (rnd (of_int \<lfloor>a * 100 + 1 / 2\<rfloor> / 100)))"
| "js_toFixed2 v = v"

section \<open>The platform: clock, random source, date-fns\<close>

text \<open>
  What the generator takes from its platform is a parameter of the model: the values
  \<open>Math.random\<close> returns, in call order (real numbers, the binary64 values among them);
  the readings of the system clock, in call order; the calendar lookups \<open>getMonth\<close>
  (documented to return \<open>0..11\<close>) and \<open>isWeekend\<close> of date-fns; and the text
  \<open>generateId\<close> builds from a clock reading and a random value. The \<open>world\<close> counts the
  calls made so far.
\<close>

record env =
  mathRandom :: "nat \<Rightarrow> real"
  systemClock :: "nat \<Rightarrow> int"
  getMonth :: "int \<Rightarrow> int"
  isWeekend :: "int \<Rightarrow> bool"
  idText :: "int \<Rightarrow> real \<Rightarrow> string"

record world =
  randomCalls :: nat
  clockReads :: nat

definition Math_random :: "env \<Rightarrow> world \<Rightarrow> real \<times> world" where
  "Math_random E w = (mathRandom E (randomCalls w), w\<lparr>randomCalls := Suc (randomCalls w)\<rparr>)"

definition Date_now :: "env \<Rightarrow> world \<Rightarrow> int \<times> world" where
  "Date_now E w = (systemClock E (clockReads w), w\<lparr>clockReads := Suc (clockReads w)\<rparr>)"

text \<open>
  The day arithmetic of date-fns, for a process whose local time zone is UTC: a day is
  \<open>86400000\<close> ms and starts at a multiple of it. \<open>addHours\<close> adds \<open>3600000\<close> ms per hour in
  every time zone.
\<close>

definition startOfDay :: "int \<Rightarrow> int" where
  "startOfDay t = t - t mod 86400000"

definition endOfDay :: "int \<Rightarrow> int" where
  "endOfDay t = startOfDay t + 86399999"

definition subDays :: "int \<Rightarrow> int \<Rightarrow> int" where
  "subDays t n = t - n * 86400000"

definition addHours :: "int \<Rightarrow> int \<Rightarrow> int" where
  "addHours t h = t + h * 3600000"

section \<open>src/lib/constants.ts\<close>

record DataGeneration =
  baseRevenue :: real
  revenueGrowth :: real
  revenueVolatility :: real
  baseUsers :: real
  usersGrowth :: real
  usersVolatility :: real
  baseEngagement :: real
  engagementVolatility :: real
  weekendBoost :: real
  seasonalAmplitude :: real

definition DATA_GENERATION :: DataGeneration where
  "DATA_GENERATION =
     \<lparr> baseRevenue = 50000, revenueGrowth = rnd 0.15, revenueVolatility = rnd 0.1,
       baseUsers = 10000, usersGrowth = rnd 0.2, usersVolatility = rnd 0.15,
       baseEngagement = 65, engagementVolatility = rnd 0.05,
       weekendBoost = rnd 1.2, seasonalAmplitude = rnd 0.3 \<rparr>"

record SseConfig =
  reconnectInterval :: nat
  maxReconnectAttempts :: nat
  heartbeatInterval :: nat
  updateInterval :: nat

definition SSE_CONFIG :: SseConfig where
  "SSE_CONFIG =
     \<lparr> reconnectInterval = 3000, maxReconnectAttempts = 5,
       heartbeatInterval = 30000, updateInterval = 5000 \<rparr>"

section \<open>src/lib/utils.ts: generateId, getDateRangeFromTimeRange\<close>

definition generateId :: "env \<Rightarrow> world \<Rightarrow> string \<times> world" where
  "generateId E w =
     (let (t, w1) = Date_now E w;
          (r, w2) = Math_random E w1
      in (idText E t r, w2))"

definition getDateRangeFromTimeRange :: "env \<Rightarrow> string \<Rightarrow> world \<Rightarrow> (int \<times> int) \<times> world" where
  "getDateRangeFromTimeRange E timeRange w =
     (let (now, w1) = Date_now E w;
          end' = endOfDay now;
          start =
            (if timeRange = ''24h'' then startOfDay (subDays end' 1)
             else if timeRange = ''7d'' then startOfDay (subDays end' 7)
             else if timeRange = ''30d'' then startOfDay (subDays end' 30)
             else if timeRange = ''90d'' then startOfDay (subDays end' 90)
             else if timeRange = ''1y'' then startOfDay (subDays end' 365)
             else if timeRange = ''all'' then startOfDay (subDays end' 730)
             else startOfDay (subDays end' 30))
      in ((start, end'), w1))"

section \<open>src/lib/data-generator.ts: the generator\<close>

text \<open>\<open>1 + (Math.random() - 0.5) * 2 * magnitude\<close>\<close>

definition volatility :: "real \<Rightarrow> real \<Rightarrow> jsnum" where
  "volatility r magnitude =
     js_add (Fin 1) (js_mul (js_mul (js_sub (Fin r) (Fin 0.5)) (Fin 2)) (Fin magnitude))"

definition generateMetricPoint :: "env \<Rightarrow> int \<Rightarrow> nat \<Rightarrow> nat \<Rightarrow> world \<Rightarrow> Metric \<times> world" where
  "generateMetricPoint E baseDate index totalPoints w =
     (let date = baseDate;
          dayProgress = js_div (Fin (real index)) (Fin (real totalPoints));
          isWeekendDay = isWeekend E date;
          month = getMonth E date;
          seasonalFactor =
            js_add (Fin 1)
              (js_mul
                (js_sin (js_mul (js_mul (js_div (js_sub (Fin (of_int month)) (Fin 5)) (Fin 12))
                   (Fin Math_PI)) (Fin 2)))
                (Fin (seasonalAmplitude DATA_GENERATION)));
          weekendFactor = (if isWeekendDay then Fin (weekendBoost DATA_GENERATION) else Fin 1);
          growthFactor =
            js_pow (js_add (Fin 1) (js_div (Fin (revenueGrowth DATA_GENERATION)) (Fin 30))) index;
          (r1, w1) = Math_random E w;
          revenueVolatility' = volatility r1 (revenueVolatility DATA_GENERATION);
          (r2, w2) = Math_random E w1;
          usersVolatility' = volatility r2 (usersVolatility DATA_GENERATION);
          (r3, w3) = Math_random E w2;
          engagementVolatility' = volatility r3 (engagementVolatility DATA_GENERATION);
          revenue' =
            js_round
              (js_mul (js_mul (js_mul (js_mul (Fin (baseRevenue DATA_GENERATION)) growthFactor)
                 seasonalFactor) weekendFactor) revenueVolatility');
          activeUsers' =
            js_round
              (js_mul (js_mul (js_mul (js_mul (Fin (baseUsers DATA_GENERATION))
                 (js_pow (js_add (Fin 1) (js_div (Fin (usersGrowth DATA_GENERATION)) (Fin 30)))
                    index))
                 seasonalFactor) weekendFactor) usersVolatility');
          engagement =
            js_max (Fin 40)
              (js_min (Fin 90)
                (js_mul
                  (js_mul (Fin (baseEngagement DATA_GENERATION))
                    (js_add (Fin 1)
                      (js_mul (js_sin (js_mul (js_mul dayProgress (Fin Math_PI)) (Fin 4))) (Fin (rnd 0.1)))))
                  engagementVolatility'));
          (ident, w4) = generateId E w3
      in (\<lparr> metricId = ident, timestamp = date, revenue = revenue',
            activeUsers = activeUsers', engagementRate = js_toFixed2 engagement \<rparr>, w4))"

text \<open>The \<open>switch\<close> of \<open>generateMetrics\<close>: the sample interval in hours and the point count.\<close>

definition intervalAndPoints :: "string \<Rightarrow> nat \<times> nat" where
  "intervalAndPoints timeRange =
     (if timeRange = ''24h'' then (1, 24)
      else if timeRange = ''7d'' then (24, 7)
      else if timeRange = ''30d'' then (24, 30)
      else if timeRange = ''90d'' then (24 * 3, 30)
      else if timeRange = ''1y'' then (24 * 7, 52)
      else if timeRange = ''all'' then (24 * 14, 52)
      else (24, 30))"

text \<open>
  \<^verbatim>\<open>while (currentDate <= to && index < totalPoints) {
    metrics.push(generateMetricPoint(currentDate, index, totalPoints));
    currentDate = addHours(currentDate, interval);
    index++;
  }\<close>
\<close>

function generateLoop ::
  "env \<Rightarrow> int \<Rightarrow> nat \<Rightarrow> nat \<Rightarrow> int \<Rightarrow> nat \<Rightarrow> Metric list \<Rightarrow> world \<Rightarrow> Metric list \<times> world"
where
  "generateLoop E to interval totalPoints currentDate index metrics w =
     (if currentDate \<le> to \<and> index < totalPoints then
        (let (m, w1) = generateMetricPoint E currentDate index totalPoints w
         in generateLoop E to interval totalPoints (addHours currentDate (int interval))
              (Suc index) (metrics @ [m]) w1)
      else (metrics, w))"
  by pat_completeness auto
termination
  by (relation "measure (\<lambda>(E, to, interval, totalPoints, currentDate, index, metrics, w).
        totalPoints - index)") auto

definition generateMetrics :: "env \<Rightarrow> string \<Rightarrow> world \<Rightarrow> Metric list \<times> world" where
  "generateMetrics E timeRange w =
     (let ((from, to), w1) = getDateRangeFromTimeRange E timeRange w;
          (interval, totalPoints) = intervalAndPoints timeRange
      in generateLoop E to interval totalPoints (startOfDay from) 0 [] w1)"

definition generateNewMetric :: "env \<Rightarrow> world \<Rightarrow> Metric \<times> world" where
  "generateNewMetric E w =
     (let (now, w1) = Date_now E w
      in generateMetricPoint E now 0 1 w1)"

section \<open>src/app/api/metrics/route.ts: the history endpoint\<close>

datatype body = ErrorBody string | MetricsBody "Metric list" Summary int int

record response =
  status :: nat
  body :: body

definition validRanges :: "string list" where
  "validRanges = [''24h'', ''7d'', ''30d'', ''90d'', ''1y'', ''all'']"

text \<open>
  The request carries the value of the \<open>timeRange\<close> query parameter, \<open>None\<close> when the
  parameter is absent. \<open>searchParams.get("timeRange") || "30d"\<close> replaces an absent and an
  empty value by \<open>"30d"\<close>. A response built without a status has status \<open>200\<close>. Nothing
  inside the \<open>try\<close> block throws, so its \<open>catch\<close> (status \<open>500\<close>) is never entered.
  \<open>metrics[0]?.timestamp || new Date()\<close> reads the clock only when the array is empty.
\<close>

definition GET_metrics :: "env \<Rightarrow> string option \<Rightarrow> world \<Rightarrow> response \<times> world" where
  "GET_metrics E param w =
     (let timeRange = (case param of None \<Rightarrow> ''30d'' | Some v \<Rightarrow> if v = [] then ''30d'' else v)
      in if timeRange \<notin> set validRanges then
           (\<lparr> status = 400, body = ErrorBody ''Invalid time range parameter'' \<rparr>, w)
         else
           let (metrics, w1) = generateMetrics E timeRange w;
               summary = calculateSummary metrics;
               (start, w2) =
                 (case metrics of [] \<Rightarrow> Date_now E w1 | m # _ \<Rightarrow> (timestamp m, w1));
               (end', w3) =
                 (case metrics of [] \<Rightarrow> Date_now E w2
                  | _ # _ \<Rightarrow> (timestamp (metrics ! (length metrics - 1)), w2))
           in (\<lparr> status = 200, body = MetricsBody metrics summary start end' \<rparr>, w3))"

section \<open>src/app/api/metrics/route.ts: the push transport\<close>

datatype sseMessage =
    MetricMessage Metric int
  | ConnectionMessage string int
  | ErrorMessage string int

datatype frame = DataFrame sseMessage | HeartbeatFrame

text \<open>
  The state of one subscriber's stream after \<open>start\<close> has run: whether each interval timer
  is still set, whether the stream has stopped taking frames (its controller has been
  closed, or its consumer has cancelled it), how often \<open>close\<close> has succeeded, whether the
  request's abort signal is aborted, the frames enqueued so far, the errors the data
  callback has caught and logged, and the exceptions that have escaped a callback.
  A timer callback runs only while its timer is set. \<open>enqueue\<close> and \<open>close\<close> throw on a
  stream that no longer takes frames; only the data callback has a \<open>try\<close> around them.
\<close>

record transport =
  dataTimerSet :: bool
  heartbeatTimerSet :: bool
  controllerClosed :: bool
  closeCount :: nat
  signalAborted :: bool
  enqueued :: "frame list"
  loggedErrors :: nat
  uncaughtErrors :: nat
  platform :: world

text \<open>
  \<open>start\<close> enqueues the connection message, sets the two intervals and adds the abort
  listener, without looking at \<open>request.signal.aborted\<close>. The request may arrive with its
  signal already aborted (\<open>aborted\<close>); the listener of such a signal is never called.
\<close>

definition startStream :: "env \<Rightarrow> bool \<Rightarrow> world \<Rightarrow> transport" where
  "startStream E aborted w =
     (let (t, w1) = Date_now E w
      in \<lparr> dataTimerSet = True, heartbeatTimerSet = True, controllerClosed = False,
           closeCount = 0, signalAborted = aborted,
           enqueued = [DataFrame (ConnectionMessage ''connected'' t)],
           loggedErrors = 0, uncaughtErrors = 0, platform = w1 \<rparr>)"

definition dataTick :: "env \<Rightarrow> transport \<Rightarrow> transport" where
  "dataTick E s =
     (if \<not> dataTimerSet s then s
      else
        let (metric, w1) = generateNewMetric E (platform s);
            (t, w2) = Date_now E w1
        in if controllerClosed s then s\<lparr>loggedErrors := Suc (loggedErrors s), platform := w2\<rparr>
           else s\<lparr>enqueued := enqueued s @ [DataFrame (MetricMessage metric t)],
                  platform := w2\<rparr>)"

definition heartbeatTick :: "transport \<Rightarrow> transport" where
  "heartbeatTick s =
     (if \<not> heartbeatTimerSet s then s
      else if controllerClosed s then s\<lparr>uncaughtErrors := Suc (uncaughtErrors s)\<rparr>
      else s\<lparr>enqueued := enqueued s @ [HeartbeatFrame]\<rparr>)"

text \<open>
  The abort signal fires, at most once and not at all when it was aborted from the start:
  the listener clears both intervals and calls \<open>controller.close()\<close>.
\<close>

definition onAbort :: "transport \<Rightarrow> transport" where
  "onAbort s =
     (if signalAborted s then s
      else
        let s1 = s\<lparr>signalAborted := True, dataTimerSet := False, heartbeatTimerSet := False\<rparr>
        in if controllerClosed s1 then s1\<lparr>uncaughtErrors := Suc (uncaughtErrors s1)\<rparr>
           else s1\<lparr>controllerClosed := True, closeCount := Suc (closeCount s1)\<rparr>)"

text \<open>
  The consumer of the response body cancels the stream. The underlying source has no
  \<open>cancel\<close> callback, so nothing of \<open>start\<close> is told: the stream stops taking frames and the
  intervals stay set.
\<close>

definition consumerCancel :: "transport \<Rightarrow> transport" where
  "consumerCancel s = s\<lparr>controllerClosed := True\<rparr>"

datatype transportEvent = DataTick | HeartbeatTick | Abort | ConsumerCancel

fun transportStep :: "env \<Rightarrow> transport \<Rightarrow> transportEvent \<Rightarrow> transport" where
  "transportStep E s DataTick = dataTick E s"
| "transportStep E s HeartbeatTick = heartbeatTick s"
| "transportStep E s Abort = onAbort s"
| "transportStep E s ConsumerCancel = consumerCancel s"

definition runTransport :: "env \<Rightarrow> bool \<Rightarrow> world \<Rightarrow> transportEvent list \<Rightarrow> transport" where
  "runTransport E aborted w events = foldl (transportStep E) (startStream E aborted w) events"
section \<open>The useMetrics hook: the stream consumer\<close>

datatype ConnectionStatus = Disconnected | Connected | Reconnecting | ErrorStatus

datatype LoadingState = Idle | Loading | Success | LoadError

definition FETCH_FAILED :: string where
  "FETCH_FAILED = ''Failed to fetch data. Please try again.''"

definition NETWORK_ERROR :: string where
  "NETWORK_ERROR = ''Network error. Check your connection.''"

definition STREAM_DISCONNECTED :: string where
  "STREAM_DISCONNECTED = ''Real-time connection lost. Reconnecting...''"

definition UNKNOWN_ERROR :: string where
  "UNKNOWN_ERROR = ''An unexpected error occurred.''"

text \<open>
  The state of one hook instance: the React state (\<open>metrics\<close>, \<open>summary\<close>, \<open>loading\<close>,
  \<open>error\<close>, \<open>connectionStatus\<close>), the refs, and the calls made to the two callbacks.
  \<open>eventSourceOpen\<close> tells whether \<open>eventSourceRef.current\<close> is an \<open>EventSource\<close> that has
  not been closed; only such a source delivers events. \<open>reconnectTimeout\<close> is the armed
  reconnect timer with its delay in milliseconds. \<open>effectActive\<close> tells whether the
  real-time effect has run, so that its cleanup is due before the next run.
\<close>

record hook =
  metrics :: "Metric list"
  summary :: "Summary option"
  loading :: LoadingState
  error :: "string option"
  connectionStatus :: ConnectionStatus
  eventSourceOpen :: bool
  reconnectTimeout :: "nat option"
  reconnectAttempts :: nat
  isMounted :: bool
  effectActive :: bool
  reportedErrors :: "string list"
  reportedStatus :: "ConnectionStatus list"

definition initialHook :: hook where
  "initialHook =
     \<lparr> metrics = [], summary = None, loading = Idle, error = None,
       connectionStatus = Disconnected, eventSourceOpen = False, reconnectTimeout = None,
       reconnectAttempts = 0, isMounted = True, effectActive = False,
       reportedErrors = [], reportedStatus = [] \<rparr>"

definition updateConnectionStatus :: "ConnectionStatus \<Rightarrow> hook \<Rightarrow> hook" where
  "updateConnectionStatus st s =
     s\<lparr>connectionStatus := st, reportedStatus := reportedStatus s @ [st]\<rparr>"

definition reportError :: "string \<Rightarrow> hook \<Rightarrow> hook" where
  "reportError msg s = s\<lparr>error := Some msg, reportedErrors := reportedErrors s @ [msg]\<rparr>"

text \<open>
  \<open>fetchMetrics\<close>, from its start to the point where the request is pending, and its
  completion with the endpoint's response. \<open>response.ok\<close> is a status from \<open>200\<close> to \<open>299\<close>;
  a body without a \<open>data\<close> array makes \<open>data.data.map\<close> throw a \<open>TypeError\<close>, whose message
  is the parameter \<open>thrown\<close>.
\<close>

definition fetchStart :: "hook \<Rightarrow> hook" where
  "fetchStart s = s\<lparr>loading := Loading, error := None\<rparr>"

definition fetchFail :: "string \<Rightarrow> hook \<Rightarrow> hook" where
  "fetchFail msg s =
     (if \<not> isMounted s then s else (reportError msg s)\<lparr>loading := LoadError\<rparr>)"

definition fetchResolved :: "string \<Rightarrow> response \<Rightarrow> hook \<Rightarrow> hook" where
  "fetchResolved thrown resp s =
     (if \<not> (200 \<le> status resp \<and> status resp \<le> 299) then fetchFail FETCH_FAILED s
      else if \<not> isMounted s then s
      else case body resp of
             ErrorBody e \<Rightarrow> fetchFail thrown s
           | MetricsBody d sm st en \<Rightarrow> s\<lparr>metrics := d, summary := Some sm, loading := Success\<rparr>)"

text \<open>
  \<open>connectSSE\<close>: the previous source is closed, then \<open>new EventSource\<close> either returns the
  new source or throws (\<open>Some\<close> message).
\<close>

definition connectSSE :: "string option \<Rightarrow> hook \<Rightarrow> hook" where
  "connectSSE thrown s =
     (case thrown of
        None \<Rightarrow> s\<lparr>eventSourceOpen := True\<rparr>
      | Some msg \<Rightarrow> reportError msg (updateConnectionStatus ErrorStatus (s\<lparr>eventSourceOpen := False\<rparr>)))"

definition onopen :: "hook \<Rightarrow> hook" where
  "onopen s =
     (if \<not> isMounted s then s
      else (updateConnectionStatus Connected s)\<lparr>reconnectAttempts := 0\<rparr>)"

text \<open>
  \<open>onmessage\<close>: \<open>None\<close> is a payload on which \<open>JSON.parse\<close> throws; the new window is
  \<open>[...prev, newMetric].slice(-50)\<close>.
\<close>

definition onmessage :: "sseMessage option \<Rightarrow> hook \<Rightarrow> hook" where
  "onmessage payload s =
     (if \<not> isMounted s then s
      else case payload of
             None \<Rightarrow> s
           | Some (MetricMessage newMetric t) \<Rightarrow>
               s\<lparr>metrics := slice (metrics s @ [newMetric]) (- 50) None\<rparr>
           | Some (ConnectionMessage st t) \<Rightarrow> s
           | Some (ErrorMessage msg t) \<Rightarrow> s)"

text \<open>
  \<open>onerror\<close>: \<open>SSE_CONFIG.reconnectInterval * Math.pow(2, reconnectAttemptsRef.current)\<close> is
  an exact integer for every counter below \<open>maxReconnectAttempts\<close>.
\<close>

definition onerror :: "hook \<Rightarrow> hook" where
  "onerror s =
     (if \<not> isMounted s then s
      else
        let s1 = updateConnectionStatus Disconnected (s\<lparr>eventSourceOpen := False\<rparr>)
        in if reconnectAttempts s1 < maxReconnectAttempts SSE_CONFIG then
             let delay = reconnectInterval SSE_CONFIG * 2 ^ reconnectAttempts s1
             in (updateConnectionStatus Reconnecting s1)\<lparr>reconnectTimeout := Some delay\<rparr>
           else reportError STREAM_DISCONNECTED (updateConnectionStatus ErrorStatus s1))"

text \<open>The callback of the reconnect timer: \<open>reconnectAttemptsRef.current++; connectSSE()\<close>.\<close>

definition reconnectTimerFires :: "string option \<Rightarrow> hook \<Rightarrow> hook" where
  "reconnectTimerFires thrown s =
     connectSSE thrown (s\<lparr>reconnectTimeout := None, reconnectAttempts := Suc (reconnectAttempts s)\<rparr>)"

definition disconnect :: "hook \<Rightarrow> hook" where
  "disconnect s =
     (updateConnectionStatus Disconnected (s\<lparr>eventSourceOpen := False, reconnectTimeout := None\<rparr>))
       \<lparr>reconnectAttempts := 0\<rparr>"

text \<open>
  The real-time effect: the cleanup of its previous run (\<open>disconnect\<close>), then \<open>connectSSE\<close>
  or \<open>disconnect\<close>. Unmounting runs that cleanup and then the cleanup of the mount effect.
\<close>

definition realTimeEffect :: "bool \<Rightarrow> string option \<Rightarrow> hook \<Rightarrow> hook" where
  "realTimeEffect enableRealTime thrown s =
     (let s1 = (if effectActive s then disconnect s else s);
          s2 = (if enableRealTime then connectSSE thrown s1 else disconnect s1)
      in s2\<lparr>effectActive := True\<rparr>)"

definition unmount :: "hook \<Rightarrow> hook" where
  "unmount s =
     (let s1 = (if effectActive s then disconnect s else s)
      in (disconnect (s1\<lparr>isMounted := False\<rparr>))\<lparr>effectActive := False\<rparr>)"

datatype hookEvent =
    SourceOpen
  | SourceMessage "sseMessage option"
  | SourceError
  | ReconnectTimer "string option"
  | RealTimeEffect bool "string option"
  | CallDisconnect
  | Unmount
  | FetchStart
  | FetchResolved string response
  | FetchRejected string

text \<open>
  One event of the hook's single thread of control. An event of the source is delivered
  only while the source is open, the timer callback only while the timer is armed.
\<close>

fun hookStep :: "hook \<Rightarrow> hookEvent \<Rightarrow> hook" where
  "hookStep s SourceOpen = (if eventSourceOpen s then onopen s else s)"
| "hookStep s (SourceMessage payload) = (if eventSourceOpen s then onmessage payload s else s)"
| "hookStep s SourceError = (if eventSourceOpen s then onerror s else s)"
| "hookStep s (ReconnectTimer thrown) =
     (case reconnectTimeout s of None \<Rightarrow> s | Some d \<Rightarrow> reconnectTimerFires thrown s)"
| "hookStep s (RealTimeEffect enableRealTime thrown) = realTimeEffect enableRealTime thrown s"
| "hookStep s CallDisconnect = disconnect s"
| "hookStep s Unmount = unmount s"
| "hookStep s FetchStart = fetchStart s"
| "hookStep s (FetchResolved thrown resp) = fetchResolved thrown resp s"
| "hookStep s (FetchRejected msg) = fetchFail msg s"

definition runHook :: "hookEvent list \<Rightarrow> hook" where
  "runHook events = foldl hookStep initialHook events"

text \<open>The events that the stream and the reconnect timer raise by themselves.\<close>

fun streamEvent :: "hookEvent \<Rightarrow> bool" where
  "streamEvent SourceOpen = True"
| "streamEvent (SourceMessage payload) = True"
| "streamEvent SourceError = True"
| "streamEvent (ReconnectTimer thrown) = True"
| "streamEvent e = False"

section \<open>Auxiliary definitions of the proofs\<close>

text \<open>A value is finite and lies in a closed interval.\<close>

fun finBetween :: "real \<Rightarrow> real \<Rightarrow> jsnum \<Rightarrow> bool" where
  "finBetween lo hi (Fin x) = (lo \<le> x \<and> x \<le> hi)"
| "finBetween lo hi _ = False"

text \<open>A real number is a finite binary64 value.\<close>

definition dbl :: "real \<Rightarrow> bool" where
  "dbl x = (rnd x = x \<and> \<bar>x\<bar> < dbl_limit)"

text \<open>A platform for concrete runs.\<close>

definition sampleEnv :: env where
  "sampleEnv =
     \<lparr> mathRandom = (\<lambda>n. 1 / 2), systemClock = (\<lambda>n. 1700000000000 + int n),
       getMonth = (\<lambda>t. 10), isWeekend = (\<lambda>t. False), idText = (\<lambda>t r. ''id'') \<rparr>"

definition sampleWorld :: world where
  "sampleWorld = \<lparr> randomCalls = 0, clockReads = 0 \<rparr>"

text \<open>The number of days that \<open>getDateRangeFromTimeRange\<close> goes back for a time range.\<close>

definition daysBack :: "string \<Rightarrow> int" where
  "daysBack timeRange =
     (if timeRange = ''24h'' then 1
      else if timeRange = ''7d'' then 7
      else if timeRange = ''30d'' then 30
      else if timeRange = ''90d'' then 90
      else if timeRange = ''1y'' then 365
      else if timeRange = ''all'' then 730
      else 30)"

text \<open>
  Runs of the hook used as concrete inputs: the connection is opened by the real-time
  effect and then fails \<open>n\<close> times, each failure but the last followed by its reconnect
  timer; and a stream that has delivered \<open>n\<close> metric messages.
\<close>

definition failedAttempts :: "nat \<Rightarrow> hookEvent list" where
  "failedAttempts n =
     RealTimeEffect True None # concat (replicate n [SourceError, ReconnectTimer None])"

definition streamedPoints :: "nat \<Rightarrow> hookEvent list" where
  "streamedPoints n =
     [RealTimeEffect True None, SourceOpen]
       @ map (\<lambda>i. SourceMessage (Some (MetricMessage (point (int i) 100 10 50) (int i)))) [0..<n]"

section \<open>Rounding to binary64\<close>

lemma ulp_pos: "0 < ulp x"
  by (simp add: ulp_def)

lemma roundEven_of_int: "roundEven (of_int n) = n"
  by (simp add: roundEven_def)

lemma roundEven_floor: "\<lfloor>q\<rfloor> \<le> roundEven q" "roundEven q \<le> \<lfloor>q\<rfloor> + 1"
  by (simp_all add: roundEven_def)

lemma roundEven_mono:
  assumes "q \<le> r"
  shows "roundEven q \<le> roundEven r"
proof (cases "\<lfloor>q\<rfloor> = \<lfloor>r\<rfloor>")
  case True
  have "q - of_int \<lfloor>r\<rfloor> \<le> r - of_int \<lfloor>r\<rfloor>" using assms by simp
  then show ?thesis unfolding roundEven_def True by auto
next
  case False
  have "\<lfloor>q\<rfloor> \<le> \<lfloor>r\<rfloor>" using assms by (rule floor_mono)
  then have "\<lfloor>q\<rfloor> + 1 \<le> \<lfloor>r\<rfloor>" using False by simp
  then show ?thesis using roundEven_floor(2) [of q] roundEven_floor(1) [of r] by linarith
qed

lemma roundEven_ge: "of_int n \<le> q \<Longrightarrow> n \<le> roundEven q"
  using roundEven_mono [of "of_int n" q] by (simp add: roundEven_of_int)

lemma roundEven_le: "q \<le> of_int n \<Longrightarrow> roundEven q \<le> n"
  using roundEven_mono [of q "of_int n"] by (simp add: roundEven_of_int)

lemma expo_neg [simp]: "expo (- x) = expo x"
  by (simp add: expo_def)

lemma ulp_neg [simp]: "ulp (- x) = ulp x"
  by (simp add: ulp_def)

lemma rnd_neg: "rnd (- x) = - rnd x"
  by (simp add: rnd_def sgn_minus)

lemma rnd_0 [simp]: "rnd 0 = 0"
  by (simp add: rnd_def)

lemma rnd_pos: "0 < x \<Longrightarrow> rnd x = of_int (roundEven (x / ulp x)) * ulp x"
  by (simp add: rnd_def)

lemma expo_ge: "- 1022 \<le> expo x"
  by (simp add: expo_def)

lemma expo_upper:
  assumes "0 < x"
  shows "x < 2 powr real_of_int (expo x + 1)"
proof -
  define k where "k = \<lfloor>log 2 x\<rfloor>"
  have "2 powr (real_of_int k) \<le> x \<and> x < 2 powr (real_of_int (k + 1))"
    using floor_log_eq_powr_iff [of x 2 k] assms by (simp add: k_def)
  moreover have "k \<le> expo x" using assms by (simp add: expo_def k_def)
  then have "2 powr real_of_int (k + 1) \<le> 2 powr real_of_int (expo x + 1)"
    by (intro powr_mono) simp_all
  ultimately show ?thesis by linarith
qed

lemma expo_lower:
  assumes "0 < x" "- 1022 < expo x"
  shows "2 powr real_of_int (expo x) \<le> x"
proof -
  have e: "expo x = \<lfloor>log 2 x\<rfloor>" using assms by (simp add: expo_def max_def split: if_splits)
  show ?thesis using floor_log_eq_powr_iff [of x 2 "expo x"] assms(1) e by simp
qed

lemma expo_mono:
  assumes "0 < x" "x \<le> y"
  shows "expo x \<le> expo y"
proof -
  have "log 2 x \<le> log 2 y" using assms by simp
  then have "\<lfloor>log 2 x\<rfloor> \<le> \<lfloor>log 2 y\<rfloor>" by (rule floor_mono)
  then show ?thesis using assms by (simp add: expo_def)
qed

lemma expo_eq:
  assumes "0 < x" "2 powr real_of_int e \<le> x" "x < 2 powr real_of_int (e + 1)" "- 1022 \<le> e"
  shows "expo x = e"
proof -
  have "\<lfloor>log 2 x\<rfloor> = e" using floor_log_eq_powr_iff [of x 2 e] assms by simp
  then show ?thesis using assms by (simp add: expo_def)
qed

lemma powr_split: "2 powr real_of_int (e + 1) = 2 ^ 53 * 2 powr real_of_int (e - 52)"
proof -
  have "real_of_int (e + 1) = 53 + real_of_int (e - 52)" by simp
  then have "2 powr real_of_int (e + 1) = 2 powr 53 * 2 powr real_of_int (e - 52)"
    by (simp only: powr_add)
  then show ?thesis by simp
qed

lemma powr_split0: "2 powr real_of_int e = 2 ^ 52 * 2 powr real_of_int (e - 52)"
proof -
  have "real_of_int e = 52 + real_of_int (e - 52)" by simp
  then have "2 powr real_of_int e = 2 powr 52 * 2 powr real_of_int (e - 52)"
    by (simp only: powr_add)
  then show ?thesis by simp
qed

lemma rnd_upper:
  assumes "0 < x"
  shows "rnd x \<le> 2 powr real_of_int (expo x + 1)"
proof -
  have s: "2 powr real_of_int (expo x + 1) = 2 ^ 53 * ulp x"
    unfolding ulp_def by (rule powr_split)
  have "x < 2 ^ 53 * ulp x" using expo_upper [OF assms] by (simp only: s)
  then have "x / ulp x \<le> of_int (2 ^ 53)" using ulp_pos [of x] by (simp add: pos_divide_le_eq)
  then have "roundEven (x / ulp x) \<le> 2 ^ 53" by (rule roundEven_le)
  then have "real_of_int (roundEven (x / ulp x)) \<le> real_of_int (2 ^ 53)"
    by (simp only: of_int_le_iff)
  then have "real_of_int (roundEven (x / ulp x)) * ulp x \<le> 2 ^ 53 * ulp x"
    using ulp_pos [of x] by (simp add: mult_right_mono)
  then show ?thesis using assms by (simp only: rnd_pos s)
qed

lemma rnd_lower:
  assumes "0 < x" "- 1022 < expo x"
  shows "2 powr real_of_int (expo x) \<le> rnd x"
proof -
  have s: "2 powr real_of_int (expo x) = 2 ^ 52 * ulp x"
    unfolding ulp_def by (rule powr_split0)
  have "2 ^ 52 * ulp x \<le> x" using expo_lower [OF assms] by (simp only: s)
  then have "of_int (2 ^ 52) \<le> x / ulp x" using ulp_pos [of x] by (simp add: pos_le_divide_eq)
  then have "2 ^ 52 \<le> roundEven (x / ulp x)" by (rule roundEven_ge)
  then have "real_of_int (2 ^ 52) \<le> real_of_int (roundEven (x / ulp x))"
    by (simp only: of_int_le_iff)
  then have "2 ^ 52 * ulp x \<le> real_of_int (roundEven (x / ulp x)) * ulp x"
    using ulp_pos [of x] by (simp add: mult_right_mono)
  then show ?thesis using assms(1) by (simp only: rnd_pos s)
qed

lemma rnd_nonneg: "0 \<le> x \<Longrightarrow> 0 \<le> rnd x"
proof (cases "x = 0")
  case True
  then show ?thesis by simp
next
  case False
  assume "0 \<le> x"
  then have p: "0 < x" using False by simp
  have "0 \<le> x / ulp x" using p ulp_pos [of x] by simp
  then have "0 \<le> roundEven (x / ulp x)" using roundEven_ge [of 0 "x / ulp x"] by simp
  then show ?thesis using p ulp_pos [of x] by (simp add: rnd_pos)
qed

lemma rnd_mono_pos:
  assumes "0 < x" "x \<le> y"
  shows "rnd x \<le> rnd y"
proof -
  have y: "0 < y" using assms by simp
  have le: "expo x \<le> expo y" using assms by (rule expo_mono)
  show ?thesis
  proof (cases "expo x = expo y")
    case True
    then have u: "ulp x = ulp y" by (simp add: ulp_def)
    have "x / ulp y \<le> y / ulp y" using assms(2) ulp_pos [of y] by (simp add: divide_right_mono)
    then have "roundEven (x / ulp y) \<le> roundEven (y / ulp y)" by (rule roundEven_mono)
    then have "real_of_int (roundEven (x / ulp y)) * ulp y \<le> real_of_int (roundEven (y / ulp y)) * ulp y"
      using ulp_pos [of y] by (simp add: mult_right_mono)
    then show ?thesis using assms(1) y by (simp add: rnd_pos u)
  next
    case False
    then have lt: "expo x + 1 \<le> expo y" using le by simp
    then have "- 1022 < expo y" using expo_ge [of x] by linarith
    then have 1: "2 powr real_of_int (expo y) \<le> rnd y" using y by (intro rnd_lower)
    have 2: "rnd x \<le> 2 powr real_of_int (expo x + 1)" using assms(1) by (rule rnd_upper)
    have "2 powr real_of_int (expo x + 1) \<le> 2 powr real_of_int (expo y)"
      using lt by (intro powr_mono) simp_all
    then show ?thesis using 1 2 by linarith
  qed
qed

lemma rnd_mono:
  assumes "x \<le> y"
  shows "rnd x \<le> rnd y"
proof -
  consider "0 < x" | "x \<le> 0" "0 \<le> y" | "y < 0" by linarith
  then show ?thesis
  proof cases
    case 1
    then show ?thesis using assms by (rule rnd_mono_pos)
  next
    case 2
    have "rnd x \<le> 0" using rnd_nonneg [of "- x"] 2(1) by (simp add: rnd_neg)
    moreover have "0 \<le> rnd y" using 2(2) by (rule rnd_nonneg)
    ultimately show ?thesis by linarith
  next
    case 3
    have "rnd (- y) \<le> rnd (- x)" using 3 assms by (intro rnd_mono_pos) simp_all
    then show ?thesis by (simp add: rnd_neg)
  qed
qed


lemma expo_le:
  assumes "0 < x" "x < 2 powr real_of_int (k + 1)" "- 1022 \<le> k"
  shows "expo x \<le> k"
proof -
  define j where "j = \<lfloor>log 2 x\<rfloor>"
  have "2 powr (real_of_int j) \<le> x"
    using floor_log_eq_powr_iff [of x 2 j] assms(1) by (simp add: j_def)
  then have "2 powr (real_of_int j) < 2 powr real_of_int (k + 1)" using assms(2) by linarith
  then have "real_of_int j < real_of_int (k + 1)" by simp
  then have "j \<le> k" by linarith
  then show ?thesis using assms(1,3) by (simp add: expo_def j_def)
qed

lemma rnd_exact_aux:
  assumes x: "x = real_of_int m * 2 powr real_of_int k"
    and m: "0 < m" "m < 2 ^ 53" and k: "- 1074 \<le> k"
  shows "rnd x = x"
proof -
  have xp: "0 < x" using m(1) by (simp add: x)
  have "real_of_int m < real_of_int (2 ^ 53)" using m(2) by (simp only: of_int_less_iff)
  then have "x < 2 ^ 53 * 2 powr real_of_int k" by (simp add: x)
  also have "\<dots> = 2 powr real_of_int (k + 52 + 1)" using powr_split [of "k + 52"] by simp
  finally have "x < 2 powr real_of_int (k + 52 + 1)" .
  then have e: "expo x \<le> k + 52" using xp k by (intro expo_le) simp_all
  define d where "d = nat (k + 52 - expo x)"
  have ke: "real_of_int k = real d + real_of_int (expo x - 52)" using e by (simp add: d_def)
  have "2 powr real_of_int k = 2 powr real d * 2 powr real_of_int (expo x - 52)"
    by (simp only: ke powr_add)
  then have p: "2 powr real_of_int k = 2 ^ d * ulp x"
    by (simp add: ulp_def powr_realpow)
  have xd: "x = real_of_int (m * 2 ^ d) * ulp x"
    unfolding of_int_mult of_int_power of_int_numeral mult.assoc p [symmetric] by (rule x)
  have "x / ulp x = real_of_int (m * 2 ^ d) * ulp x / ulp x" using xd by (rule arg_cong)
  then have "x / ulp x = real_of_int (m * 2 ^ d)" using ulp_pos [of x] by simp
  then have "roundEven (x / ulp x) = m * 2 ^ d" by (simp only: roundEven_of_int)
  then have "rnd x = real_of_int (m * 2 ^ d) * ulp x" using xp by (simp only: rnd_pos)
  then show ?thesis using xd by simp
qed

lemma rnd_exact_pos:
  assumes "0 < m" "m < 2 ^ 53" "- 1074 \<le> k"
  shows "rnd (of_int m * 2 powr real_of_int k) = of_int m * 2 powr real_of_int k"
  using rnd_exact_aux [OF refl assms] .

lemma rnd_exact:
  assumes "\<bar>m\<bar> < 2 ^ 53" "- 1074 \<le> k"
  shows "rnd (of_int m * 2 powr real_of_int k) = of_int m * 2 powr real_of_int k"
proof -
  consider "0 < m" | "m = 0" | "m < 0" by linarith
  then show ?thesis
  proof cases
    case 1
    then show ?thesis using assms by (intro rnd_exact_pos) simp_all
  next
    case 2
    then show ?thesis by simp
  next
    case 3
    have "rnd (of_int (- m) * 2 powr real_of_int k) = of_int (- m) * 2 powr real_of_int k"
      using 3 assms by (intro rnd_exact_pos) simp_all
    then have "rnd (- (of_int m * 2 powr real_of_int k)) = - (of_int m * 2 powr real_of_int k)"
      by simp
    then show ?thesis by (simp only: rnd_neg neg_equal_iff_equal)
  qed
qed

lemma dbl_limit_pos: "0 < dbl_limit"
  by (simp add: dbl_limit_def)

lemma dbl_dyadic:
  assumes "\<bar>m\<bar> < 2 ^ 53" "- 1074 \<le> k" "k \<le> 970"
  shows "dbl (of_int m * 2 powr real_of_int k)"
proof -
  have "real_of_int \<bar>m\<bar> < real_of_int (2 ^ 53)" using assms(1) by (simp only: of_int_less_iff)
  then have m: "\<bar>real_of_int m\<bar> \<le> 2 ^ 53" by simp
  have "2 powr real_of_int k \<le> 2 powr real_of_int 970" using assms(3) by (intro powr_mono) simp_all
  then have p: "2 powr real_of_int k \<le> 2 ^ 970" by simp
  have "\<bar>real_of_int m * 2 powr real_of_int k\<bar> = \<bar>real_of_int m\<bar> * 2 powr real_of_int k"
    by (simp add: abs_mult)
  also have "\<dots> \<le> 2 ^ 53 * 2 ^ 970" using m p by (intro mult_mono) simp_all
  also have "\<dots> < dbl_limit" by (simp add: dbl_limit_def)
  finally show ?thesis using rnd_exact [OF assms(1,2)] by (simp add: dbl_def)
qed

lemma dbl_int: "\<bar>m\<bar> < 2 ^ 53 \<Longrightarrow> dbl (of_int m)"
  using dbl_dyadic [of m 0] by simp

lemma dbl_neg: "dbl x \<Longrightarrow> dbl (- x)"
  by (simp add: dbl_def rnd_neg)

lemma dbl_0: "dbl 0" using dbl_int [of 0] by simp
lemma dbl_1: "dbl 1" using dbl_int [of 1] by simp
lemma dbl_2: "dbl 2" using dbl_int [of 2] by simp
lemma dbl_40: "dbl 40" using dbl_int [of 40] by simp
lemma dbl_half: "dbl (1 / 2)" using dbl_dyadic [of 1 "- 1"] by simp
lemma dbl_3half: "dbl (3 / 2)" using dbl_dyadic [of 3 "- 1"] by simp
lemma dbl_pow2: "n \<le> 970 \<Longrightarrow> dbl (2 ^ n)"
  using dbl_dyadic [of 1 "int n"] by (simp add: powr_realpow)

lemma rnd_between:
  assumes "L \<le> x" "x \<le> U" "dbl L" "dbl U"
  shows "L \<le> rnd x \<and> rnd x \<le> U \<and> \<bar>x\<bar> < dbl_limit"
proof -
  have "rnd L \<le> rnd x" "rnd x \<le> rnd U" using assms(1,2) by (simp_all add: rnd_mono)
  then show ?thesis using assms by (auto simp add: dbl_def)
qed

lemma rnd_eval:
  assumes "2 powr real_of_int e \<le> x" "x < 2 powr real_of_int (e + 1)" "- 1022 \<le> e"
  shows "rnd x = of_int (roundEven (x / 2 powr real_of_int (e - 52))) * 2 powr real_of_int (e - 52)"
proof -
  have "0 < 2 powr real_of_int e" by simp
  then have xp: "0 < x" using assms(1) by linarith
  have "expo x = e" using xp assms by (rule expo_eq)
  then show ?thesis using xp by (simp add: rnd_pos ulp_def)
qed

lemma rnd_eval_sub:
  assumes "0 < x" "x < 2 powr (- 1022)"
  shows "rnd x = of_int (roundEven (x / 2 powr (- 1074))) * 2 powr (- 1074)"
proof -
  have "x < 2 powr real_of_int (- 1023 + 1)" using assms(2) by simp
  have "\<lfloor>log 2 x\<rfloor> \<le> - 1022"
  proof -
    have "log 2 x < - 1022" using assms by (simp add: log_less_iff)
    then show ?thesis by linarith
  qed
  then have "expo x = - 1022" using assms(1) by (simp add: expo_def)
  then show ?thesis using assms(1) by (simp add: rnd_pos ulp_def)
qed

lemma fl_in_range: "\<bar>x\<bar> < dbl_limit \<Longrightarrow> fl x = Fin (rnd x)"
  by (auto simp: fl_def)

lemma fl_not_NaN: "fl x \<noteq> NaN"
  by (simp add: fl_def)


lemma fl_between:
  assumes "L \<le> x" "x \<le> U" "dbl L" "dbl U"
  shows "finBetween L U (fl x)"
  using rnd_between [OF assms] by (simp add: fl_in_range)

lemma fl_overflow: "dbl_limit \<le> \<bar>x\<bar> \<Longrightarrow> fl x = PInf \<or> fl x = NInf"
  by (auto simp: fl_def)

lemma rnd_numeral: "(numeral n :: int) < 2 ^ 53 \<Longrightarrow> rnd (numeral n) = numeral n"
  using rnd_exact [of "numeral n" 0] by simp

lemma rnd_1 [simp]: "rnd 1 = 1"
  using rnd_exact [of 1 0] by simp

lemma rnd_half [simp]: "rnd (1 / 2) = 1 / 2"
  using dbl_half by (simp add: dbl_def)

lemma dbl_numeral: "(numeral n :: int) < 2 ^ 53 \<Longrightarrow> dbl (numeral n)"
  using dbl_int [of "numeral n"] by simp

lemma dbl_neg_numeral: "(numeral n :: int) < 2 ^ 53 \<Longrightarrow> dbl (- numeral n)"
  using dbl_int [of "- numeral n"] by simp

lemma dbl_m1: "dbl (- 1)"
  using dbl_int [of "- 1"] by simp

lemma dbl_mhalf: "dbl (- (1 / 2))"
  using dbl_neg [OF dbl_half] .

lemmas dbl_simps = dbl_0 dbl_1 dbl_m1 dbl_half dbl_mhalf dbl_3half dbl_numeral dbl_neg_numeral
  dbl_pow2
section \<open>Properties of calculateChange\<close>

lemma js_mul_100_not_NaN: "x \<noteq> NaN \<Longrightarrow> js_mul x (Fin 100) \<noteq> NaN"
  by (cases x) (simp_all add: fl_not_NaN)

lemma js_div_nz_not_NaN: "x \<noteq> NaN \<Longrightarrow> a \<noteq> 0 \<Longrightarrow> js_div x (Fin a) \<noteq> NaN"
  by (cases x) (simp_all add: fl_not_NaN)

lemma js_sub_Fin_not_NaN: "js_sub (Fin b) (Fin a) \<noteq> NaN"
  by (simp add: js_sub_def fl_not_NaN)

lemma js_sub_Fin: "js_sub (Fin b) (Fin a) = fl (b - a)"
  by (simp add: js_sub_def)

lemma js_div_infinite:
  "x = PInf \<or> x = NInf \<Longrightarrow> js_div x (Fin a) = PInf \<or> js_div x (Fin a) = NInf"
  by (cases "0 \<le> a") auto

lemma js_mul_100_infinite:
  "x = PInf \<or> x = NInf \<Longrightarrow> js_mul x (Fin 100) = PInf \<or> js_mul x (Fin 100) = NInf"
  by auto

lemma change_overflow:
  assumes a: "a \<noteq> 0"
    and o: "dbl_limit \<le> \<bar>b - a\<bar> \<or> dbl_limit \<le> \<bar>rnd (b - a) / a\<bar>
        \<or> dbl_limit \<le> \<bar>rnd (rnd (b - a) / a) * 100\<bar>"
  shows "js_mul (js_div (js_sub (Fin b) (Fin a)) (Fin a)) (Fin 100) = PInf
     \<or> js_mul (js_div (js_sub (Fin b) (Fin a)) (Fin a)) (Fin 100) = NInf"
proof (cases "dbl_limit \<le> \<bar>b - a\<bar>")
  case True
  then have "js_sub (Fin b) (Fin a) = PInf \<or> js_sub (Fin b) (Fin a) = NInf"
    unfolding js_sub_Fin by (rule fl_overflow)
  then have "js_div (js_sub (Fin b) (Fin a)) (Fin a) = PInf
      \<or> js_div (js_sub (Fin b) (Fin a)) (Fin a) = NInf"
    by (rule js_div_infinite)
  then show ?thesis by (rule js_mul_100_infinite)
next
  case False
  then have s: "js_sub (Fin b) (Fin a) = Fin (rnd (b - a))"
    by (simp add: js_sub_Fin fl_in_range)
  have d: "js_div (Fin (rnd (b - a))) (Fin a) = fl (rnd (b - a) / a)" using a by simp
  show ?thesis
  proof (cases "dbl_limit \<le> \<bar>rnd (b - a) / a\<bar>")
    case True
    then have "fl (rnd (b - a) / a) = PInf \<or> fl (rnd (b - a) / a) = NInf"
      by (rule fl_overflow)
    then have "js_div (js_sub (Fin b) (Fin a)) (Fin a) = PInf
        \<or> js_div (js_sub (Fin b) (Fin a)) (Fin a) = NInf"
      by (simp only: s d)
    then show ?thesis by (rule js_mul_100_infinite)
  next
    case q: False
    then have q': "fl (rnd (b - a) / a) = Fin (rnd (rnd (b - a) / a))"
      by (simp add: fl_in_range)
    have "dbl_limit \<le> \<bar>rnd (rnd (b - a) / a) * 100\<bar>" using o False q by blast
    then have "fl (rnd (rnd (b - a) / a) * 100) = PInf \<or> fl (rnd (rnd (b - a) / a) * 100) = NInf"
      by (rule fl_overflow)
    then show ?thesis by (simp only: s d q' js_mul.simps)
  qed
qed

lemma change_finite:
  assumes a: "a \<noteq> 0"
    and d: "\<bar>b - a\<bar> < dbl_limit"
    and q: "\<bar>rnd (b - a) / a\<bar> < dbl_limit"
    and p: "\<bar>rnd (rnd (b - a) / a) * 100\<bar> < dbl_limit"
  shows "js_mul (js_div (js_sub (Fin b) (Fin a)) (Fin a)) (Fin 100)
     = Fin (rnd (rnd (rnd (b - a) / a) * 100))"
proof -
  have s: "js_sub (Fin b) (Fin a) = Fin (rnd (b - a))"
    using d by (simp add: js_sub_Fin fl_in_range)
  have v: "js_div (Fin (rnd (b - a))) (Fin a) = Fin (rnd (rnd (b - a) / a))"
    using a q by (simp add: fl_in_range)
  have m: "js_mul (Fin (rnd (rnd (b - a) / a))) (Fin 100) = Fin (rnd (rnd (rnd (b - a) / a) * 100))"
    using p by (simp add: fl_in_range)
  show ?thesis by (simp only: s v m)
qed

text \<open>
  Claim C10, as amended. For every pair of finite numbers \<open>calculateChange\<close> is defined and
  is never \<open>NaN\<close>. When \<open>oldValue\<close> is \<open>0\<close> it returns \<open>100\<close> if \<open>newValue > 0\<close> and \<open>0\<close>
  otherwise. When \<open>oldValue\<close> is not \<open>0\<close> it returns \<open>((newValue - oldValue) / oldValue) * 100\<close>
  in binary64 arithmetic, each of the three operations being rounded: the result is the
  finite value \<open>rnd (rnd (rnd (b - a) / a) * 100)\<close> when the difference, the quotient of the
  rounded difference and the hundredfold of the rounded quotient all stay inside the
  binary64 range, and it is \<open>Infinity\<close> or \<open>-Infinity\<close> when one of them leaves it.
\<close>

theorem calculateChange_finite_inputs:
  "calculateChange (Fin a) (Fin b) \<noteq> NaN
   \<and> (a = 0 \<longrightarrow> calculateChange (Fin a) (Fin b) = (if 0 < b then Fin 100 else Fin 0))
   \<and> (a \<noteq> 0 \<longrightarrow> calculateChange (Fin a) (Fin b) =
         js_mul (js_div (js_sub (Fin b) (Fin a)) (Fin a)) (Fin 100))
   \<and> (a \<noteq> 0 \<longrightarrow> \<bar>b - a\<bar> < dbl_limit \<longrightarrow> \<bar>rnd (b - a) / a\<bar> < dbl_limit \<longrightarrow>
         \<bar>rnd (rnd (b - a) / a) * 100\<bar> < dbl_limit \<longrightarrow>
         calculateChange (Fin a) (Fin b) = Fin (rnd (rnd (rnd (b - a) / a) * 100)))
   \<and> (a \<noteq> 0 \<longrightarrow>
         (dbl_limit \<le> \<bar>b - a\<bar> \<or> dbl_limit \<le> \<bar>rnd (b - a) / a\<bar>
            \<or> dbl_limit \<le> \<bar>rnd (rnd (b - a) / a) * 100\<bar>) \<longrightarrow>
         calculateChange (Fin a) (Fin b) = PInf \<or> calculateChange (Fin a) (Fin b) = NInf)"
proof -
  have nn: "calculateChange (Fin a) (Fin b) \<noteq> NaN"
  proof (cases "a = 0")
    case True
    then show ?thesis by (simp add: calculateChange_def)
  next
    case False
    then show ?thesis
      by (simp add: calculateChange_def js_mul_100_not_NaN js_div_nz_not_NaN js_sub_Fin_not_NaN)
  qed
  have z: "a = 0 \<longrightarrow> calculateChange (Fin a) (Fin b) = (if 0 < b then Fin 100 else Fin 0)"
    by (simp add: calculateChange_def)
  have f: "a \<noteq> 0 \<longrightarrow> calculateChange (Fin a) (Fin b) =
      js_mul (js_div (js_sub (Fin b) (Fin a)) (Fin a)) (Fin 100)"
    by (simp add: calculateChange_def)
  have r: "a \<noteq> 0 \<longrightarrow> \<bar>b - a\<bar> < dbl_limit \<longrightarrow> \<bar>rnd (b - a) / a\<bar> < dbl_limit \<longrightarrow>
         \<bar>rnd (rnd (b - a) / a) * 100\<bar> < dbl_limit \<longrightarrow>
         calculateChange (Fin a) (Fin b) = Fin (rnd (rnd (rnd (b - a) / a) * 100))"
  proof (intro impI)
    assume a: "a \<noteq> 0" and d: "\<bar>b - a\<bar> < dbl_limit"
      and q: "\<bar>rnd (b - a) / a\<bar> < dbl_limit"
      and p: "\<bar>rnd (rnd (b - a) / a) * 100\<bar> < dbl_limit"
    have e: "calculateChange (Fin a) (Fin b) =
        js_mul (js_div (js_sub (Fin b) (Fin a)) (Fin a)) (Fin 100)"
      using f a by blast
    show "calculateChange (Fin a) (Fin b) = Fin (rnd (rnd (rnd (b - a) / a) * 100))"
      unfolding e using a d q p by (rule change_finite)
  qed
  have o: "a \<noteq> 0 \<longrightarrow>
         (dbl_limit \<le> \<bar>b - a\<bar> \<or> dbl_limit \<le> \<bar>rnd (b - a) / a\<bar>
            \<or> dbl_limit \<le> \<bar>rnd (rnd (b - a) / a) * 100\<bar>) \<longrightarrow>
         calculateChange (Fin a) (Fin b) = PInf \<or> calculateChange (Fin a) (Fin b) = NInf"
  proof (intro impI)
    assume a: "a \<noteq> 0"
      and ov: "dbl_limit \<le> \<bar>b - a\<bar> \<or> dbl_limit \<le> \<bar>rnd (b - a) / a\<bar>
            \<or> dbl_limit \<le> \<bar>rnd (rnd (b - a) / a) * 100\<bar>"
    have e: "calculateChange (Fin a) (Fin b) =
        js_mul (js_div (js_sub (Fin b) (Fin a)) (Fin a)) (Fin 100)"
      using f a by blast
    show "calculateChange (Fin a) (Fin b) = PInf \<or> calculateChange (Fin a) (Fin b) = NInf"
      unfolding e using a ov by (rule change_overflow)
  qed
  from nn z f r o show ?thesis by blast
qed

lemma rnd_third: "rnd (1 / 3) = 6004799503160661 / 2 ^ 54"
  using rnd_eval [of "- 2" "1 / 3"] by (simp add: roundEven_def powr_minus)

lemma rnd_third_100: "rnd (6004799503160661 / 2 ^ 54 * 100) = 4691249611844266 / 2 ^ 47"
  using rnd_eval [of 5 "6004799503160661 / 2 ^ 54 * 100"]
  by (simp add: roundEven_def powr_minus)

lemma rnd_big_sub: "rnd (6305039478318694 * 2 ^ 971 - 70) = 6305039478318694 * 2 ^ 971"
  using rnd_eval [of 1023 "6305039478318694 * 2 ^ 971 - 70"]
  by (simp add: roundEven_def)

lemma rnd_big_div: "rnd (6305039478318694 * 2 ^ 971 / 70) = 5764607523034235 * 2 ^ 965"
  using rnd_eval [of 1017 "6305039478318694 * 2 ^ 971 / 70"]
  by (simp add: roundEven_def)

lemma big_overflow:
  "dbl_limit \<le> \<bar>rnd (rnd (6305039478318694 * 2 ^ 971 - 70) / 70) * 100\<bar>"
  by (simp only: rnd_big_sub rnd_big_div) (simp add: dbl_limit_def)

theorem calculateChange_finite_inputs_witness:
  "calculateChange (Fin 100) (Fin 150) = Fin 50
   \<and> calculateChange (Fin 0) (Fin 7) = Fin 100
   \<and> calculateChange (Fin 0) (Fin (- 7)) = Fin 0
   \<and> calculateChange (Fin 100) (Fin 150) \<noteq> NaN
   \<and> calculateChange (Fin 3) (Fin 4) = Fin (4691249611844266 / 2 ^ 47)
   \<and> (calculateChange (Fin 70) (Fin (6305039478318694 * 2 ^ 971)) = PInf
        \<or> calculateChange (Fin 70) (Fin (6305039478318694 * 2 ^ 971)) = NInf)"
proof -
  have c1: "(100::real) \<noteq> 0 \<and> \<bar>150 - 100 :: real\<bar> < dbl_limit
      \<and> \<bar>rnd (150 - 100) / 100\<bar> < dbl_limit
      \<and> \<bar>rnd (rnd (150 - 100) / 100) * 100\<bar> < dbl_limit"
    by (simp add: dbl_limit_def rnd_numeral)
  have "calculateChange (Fin 100) (Fin 150) = Fin (rnd (rnd (rnd (150 - 100) / 100) * 100))"
    using calculateChange_finite_inputs [of 100 150] c1 by blast
  then have 1: "calculateChange (Fin 100) (Fin 150) = Fin 50" by (simp add: rnd_numeral)
  have 2: "calculateChange (Fin 0) (Fin 7) = Fin 100"
    using calculateChange_finite_inputs [of 0 7] by simp
  have 3: "calculateChange (Fin 0) (Fin (- 7)) = Fin 0"
    using calculateChange_finite_inputs [of 0 "- 7"] by simp
  have 4: "calculateChange (Fin 100) (Fin 150) \<noteq> NaN"
    using calculateChange_finite_inputs [of 100 150] by blast
  have c5: "(3::real) \<noteq> 0 \<and> \<bar>4 - 3 :: real\<bar> < dbl_limit
      \<and> \<bar>rnd (4 - 3) / 3\<bar> < dbl_limit
      \<and> \<bar>rnd (rnd (4 - 3) / 3) * 100\<bar> < dbl_limit"
    by (simp add: dbl_limit_def rnd_third)
  have "calculateChange (Fin 3) (Fin 4) = Fin (rnd (rnd (rnd (4 - 3) / 3) * 100))"
    using calculateChange_finite_inputs [of 3 4] c5 by blast
  then have 5: "calculateChange (Fin 3) (Fin 4) = Fin (4691249611844266 / 2 ^ 47)"
    using rnd_third_100 by (simp add: rnd_third)
  have 6: "calculateChange (Fin 70) (Fin (6305039478318694 * 2 ^ 971)) = PInf
        \<or> calculateChange (Fin 70) (Fin (6305039478318694 * 2 ^ 971)) = NInf"
  proof -
    have n: "(70::real) \<noteq> 0" by simp
    show ?thesis
      using calculateChange_finite_inputs [of 70 "6305039478318694 * 2 ^ 971"] big_overflow n
      by blast
  qed
  from 1 2 3 4 5 6 show ?thesis by blast
qed

text \<open>
  Claim C10 as stated fails: finite binary64 inputs whose quotient overflows give
  \<open>Infinity\<close>, as do the inputs \<open>70\<close> and \<open>6305039478318694 * 2\<^sup>9\<^sup>7\<^sup>1\<close>, for which the
  exact value of \<open>(b - a) / a * 100\<close> is in range and the rounded quotient times \<open>100\<close> is
  not; and a \<open>NaN\<close> argument, which is not compared equal to \<open>0\<close>, is propagated.
\<close>

theorem calculateChange_counterexample:
  "calculateChange (Fin (1 / 2 ^ 1000)) (Fin (2 ^ 1000)) = PInf
   \<and> calculateChange (Fin 70) (Fin (6305039478318694 * 2 ^ 971)) = PInf
   \<and> \<bar>(6305039478318694 * 2 ^ 971 - 70) / 70 * 100 :: real\<bar> < dbl_limit
   \<and> calculateChange NaN (Fin 1) = NaN"
proof -
  have s: "js_sub (Fin (2 ^ 1000)) (Fin (1 / 2 ^ 1000)) = Fin (rnd (2 ^ 1000 - 1 / 2 ^ 1000))"
    unfolding js_sub_Fin by (rule fl_in_range) (simp add: dbl_limit_def)
  have e: "rnd (2 ^ 999) = 2 ^ 999" using rnd_exact [of 1 999] by simp
  have "rnd (2 ^ 999) \<le> rnd (2 ^ 1000 - 1 / 2 ^ 1000)" by (rule rnd_mono) simp
  then have "2 ^ 999 \<le> rnd (2 ^ 1000 - 1 / 2 ^ 1000)" by (simp only: e)
  then have "dbl_limit \<le> rnd (2 ^ 1000 - 1 / 2 ^ 1000) / (1 / 2 ^ 1000)"
    by (simp add: dbl_limit_def)
  then have d: "js_div (Fin (rnd (2 ^ 1000 - 1 / 2 ^ 1000))) (Fin (1 / 2 ^ 1000)) = PInf"
    by (simp add: fl_def)
  have c: "calculateChange (Fin (1 / 2 ^ 1000)) (Fin (2 ^ 1000))
      = js_mul (js_div (js_sub (Fin (2 ^ 1000)) (Fin (1 / 2 ^ 1000))) (Fin (1 / 2 ^ 1000)))
          (Fin 100)"
    by (simp add: calculateChange_def)
  have m: "js_mul PInf (Fin 100) = PInf" by simp
  have 1: "calculateChange (Fin (1 / 2 ^ 1000)) (Fin (2 ^ 1000)) = PInf"
    by (simp only: c s d m)
  have "fl (6305039478318694 * 2 ^ 971 - 70) = Fin (rnd (6305039478318694 * 2 ^ 971 - 70))"
    by (rule fl_in_range) (simp add: dbl_limit_def)
  then have bs: "js_sub (Fin (6305039478318694 * 2 ^ 971)) (Fin 70)
      = Fin (6305039478318694 * 2 ^ 971)"
    by (simp only: js_sub_Fin rnd_big_sub)
  have bq: "js_div (Fin (6305039478318694 * 2 ^ 971)) (Fin 70)
      = fl (6305039478318694 * 2 ^ 971 / 70)"
    by simp
  have "fl (6305039478318694 * 2 ^ 971 / 70) = Fin (rnd (6305039478318694 * 2 ^ 971 / 70))"
    by (rule fl_in_range) (simp add: dbl_limit_def)
  then have bd: "js_div (Fin (6305039478318694 * 2 ^ 971)) (Fin 70)
      = Fin (5764607523034235 * 2 ^ 965)"
    by (simp only: bq rnd_big_div)
  have bm: "js_mul (Fin (5764607523034235 * 2 ^ 965)) (Fin 100) = PInf"
    by (simp add: fl_def dbl_limit_def)
  have "calculateChange (Fin 70) (Fin (6305039478318694 * 2 ^ 971))
      = js_mul (js_div (js_sub (Fin (6305039478318694 * 2 ^ 971)) (Fin 70)) (Fin 70)) (Fin 100)"
    by (simp add: calculateChange_def)
  then have 2: "calculateChange (Fin 70) (Fin (6305039478318694 * 2 ^ 971)) = PInf"
    by (simp only: bs bd bm)
  have 3: "\<bar>(6305039478318694 * 2 ^ 971 - 70) / 70 * 100 :: real\<bar> < dbl_limit"
    by (simp add: dbl_limit_def)
  have 4: "calculateChange NaN (Fin 1) = NaN"
    by (simp add: calculateChange_def js_sub_def)
  from 1 2 3 4 show ?thesis by blast
qed
section \<open>Properties of calculateSummary\<close>

text \<open>
  Claim C7. \<open>calculateSummary\<close> of the empty sequence returns the summary whose six fields
  are all \<open>0\<close>; the early return is taken before any element is read or any division is
  made.
\<close>

theorem calculateSummary_empty:
  "calculateSummary [] =
     \<lparr> totalRevenue = Fin 0, totalUsers = Fin 0, avgEngagement = Fin 0,
       revenueChange = Fin 0, usersChange = Fin 0, engagementChange = Fin 0 \<rparr>"
  by (simp add: calculateSummary_def)

lemma rnd_fifth: "rnd (1 / 5) = 3602879701896397 / 2 ^ 54"
  using rnd_eval [of "- 3" "1 / 5"] by (simp add: roundEven_def powr_minus)

lemma splitIndex_div:
  assumes "n < 2 ^ 32"
  shows "splitIndex n = int (n div 5)"
proof -
  define q where "q = n div 5"
  define x where "x = real n * rnd 0.2"
  have n: "real n = 5 * real q + real (n mod 5)"
    unfolding q_def by (metis mult_div_mod_eq of_nat_add of_nat_mult of_nat_numeral)
  have r: "real (n mod 5) \<le> 4"
  proof -
    have "n mod 5 < 5" by simp
    then have "n mod 5 \<le> 4" by linarith
    then show ?thesis by (metis of_nat_le_iff of_nat_numeral)
  qed
  have nb: "real n < 2 ^ 32" using assms by (metis of_nat_less_iff of_nat_numeral of_nat_power)
  have q53: "\<bar>8 * int q + 7\<bar> < 2 ^ 53"
  proof -
    have "q \<le> n" by (simp add: q_def)
    then have "q < 2 ^ 32" using assms by linarith
    then have "int q < int (2 ^ 32)" by (simp only: of_nat_less_iff)
    then show ?thesis by simp
  qed
  have "x = real n * (3602879701896397 / 2 ^ 54)" by (simp add: x_def rnd_fifth)
  then have xe: "x = real n / 5 + real n / (5 * 2 ^ 54)" by simp
  have lo: "real q \<le> x" using n xe by simp
  have "real n / (5 * 2 ^ 54) \<le> 1 / 16" using nb by simp
  then have hi: "x \<le> real q + 7 / 8" using n r xe by simp
  have dq: "dbl (real q)"
  proof -
    have "\<bar>int q\<bar> < 2 ^ 53" using q53 by linarith
    then show ?thesis using dbl_int [of "int q"] by simp
  qed
  have dh: "dbl (real q + 7 / 8)"
    using dbl_dyadic [of "8 * int q + 7" "- 3"] q53 by (simp add: powr_minus field_simps)
  have b: "real q \<le> rnd x \<and> rnd x \<le> real q + 7 / 8 \<and> \<bar>x\<bar> < dbl_limit"
    using lo hi dq dh by (rule rnd_between)
  have "\<lfloor>rnd x\<rfloor> = int q"
    by (rule floor_unique) (use b in simp_all)
  then show ?thesis by (simp add: splitIndex_def x_def q_def)
qed

lemma firstSegment_take:
  "length ms < 2 ^ 32 \<Longrightarrow> firstSegment ms = take (length ms div 5) ms"
  by (simp add: firstSegment_def slice_def relIndex_def splitIndex_div min_def)

lemma lastSegment_drop:
  assumes "5 \<le> length ms" and b: "length ms < 2 ^ 32"
  shows "lastSegment ms = drop (length ms - length ms div 5) ms"
proof -
  let ?n = "length ms" and ?k = "length ms div 5"
  have k: "0 < ?k" "?k \<le> ?n" "?k < ?n" using assms by (simp_all add: div_greater_zero_iff)
  have "lastSegment ms = take ?k (drop (?n - ?k) ms)"
    using k b by (simp add: lastSegment_def slice_def relIndex_def splitIndex_div max_def nat_diff_distrib' of_nat_diff)
  then show ?thesis using k by simp
qed

lemma splitIndex_short: "n < 5 \<Longrightarrow> splitIndex n = 0"
  using splitIndex_div [of n] by simp

lemma firstSegment_short: "length ms < 5 \<Longrightarrow> firstSegment ms = []"
  by (simp add: firstSegment_def slice_def relIndex_def splitIndex_short)

lemma lastSegment_short: "length ms < 5 \<Longrightarrow> lastSegment ms = ms"
  by (simp add: lastSegment_def slice_def relIndex_def splitIndex_short)

lemma js_sub_NaN_right: "js_sub x NaN = NaN"
  by (cases x) (simp_all add: js_sub_def)

lemma segAvg_Nil: "segAvg field [] = NaN"
  by (simp add: segAvg_def reduceSum_def)

lemma changePct_Nil: "changePct field [] seg = NaN"
  by (simp add: changePct_def segAvg_Nil js_sub_NaN_right)

lemma change_segments:
  assumes "ms \<noteq> []" "length ms < 2 ^ 32"
  shows "js_mul (js_div (js_sub (segAvg f (lastSegment ms)) (segAvg f (firstSegment ms)))
            (segAvg f (firstSegment ms))) (Fin 100)
         = changePct f (take (length ms div 5) ms) (drop (length ms - length ms div 5) ms)"
proof (cases "5 \<le> length ms")
  case True
  then show ?thesis using assms(2) by (simp add: changePct_def firstSegment_take lastSegment_drop)
next
  case False
  then have z: "length ms div 5 = 0" by simp
  have "firstSegment ms = []" using assms(2) by (simp add: firstSegment_take z)
  then show ?thesis by (simp add: z segAvg_Nil js_sub_NaN_right changePct_Nil)
qed

text \<open>
  From five points on the segments are the ones the specification names: with
  \<open>k = \<lfloor>n * 0.2\<rfloor> = n div 5\<close> the first segment is the first \<open>k\<close> points, the last segment
  the last \<open>k\<close> points, and each change field is
  \<open>(avg(last k) - avg(first k)) / avg(first k) * 100\<close> for its metric.
\<close>

lemma segments_from_five:
  assumes "5 \<le> length ms" "length ms < 2 ^ 32"
  shows "splitIndex (length ms) = int (length ms div 5)
     \<and> firstSegment ms = take (length ms div 5) ms
     \<and> lastSegment ms = drop (length ms - length ms div 5) ms
     \<and> revenueChange (calculateSummary ms) =
          changePct revenue (take (length ms div 5) ms)
            (drop (length ms - length ms div 5) ms)
     \<and> usersChange (calculateSummary ms) =
          changePct activeUsers (take (length ms div 5) ms)
            (drop (length ms - length ms div 5) ms)
     \<and> engagementChange (calculateSummary ms) =
          changePct engagementRate (take (length ms div 5) ms)
            (drop (length ms - length ms div 5) ms)"
proof -
  have ne: "ms \<noteq> []" using assms(1) by auto
  have r: "revenueChange (calculateSummary ms) =
          changePct revenue (take (length ms div 5) ms)
            (drop (length ms - length ms div 5) ms)"
    using ne assms(2) by (simp add: calculateSummary_def Let_def change_segments)
  have u: "usersChange (calculateSummary ms) =
          changePct activeUsers (take (length ms div 5) ms)
            (drop (length ms - length ms div 5) ms)"
    using ne assms(2) by (simp add: calculateSummary_def Let_def change_segments)
  have e: "engagementChange (calculateSummary ms) =
          changePct engagementRate (take (length ms div 5) ms)
            (drop (length ms - length ms div 5) ms)"
    using ne assms(2) by (simp add: calculateSummary_def Let_def change_segments)
  show ?thesis
    using r u e splitIndex_div [OF assms(2)] firstSegment_take [OF assms(2)]
      lastSegment_drop [OF assms] by blast
qed

text \<open>
  Claim C1 fails in the code for the sequences of one to four points. There \<open>k = 0\<close>, the
  first segment is empty, and \<open>metrics.slice(-splitIndex)\<close> is \<open>metrics.slice(-0)\<close>, the
  whole sequence, where the specification has the last \<open>0\<close> points. The three averages of
  the empty first segment are \<open>0 / 0\<close>, so the change fields returned are \<open>NaN\<close>.
\<close>

theorem calculateSummary_short_input:
  assumes "1 \<le> length ms" "length ms < 5"
  shows "splitIndex (length ms) = 0
     \<and> firstSegment ms = []
     \<and> lastSegment ms = ms
     \<and> lastSegment ms \<noteq> drop (length ms - nat (splitIndex (length ms))) ms
     \<and> revenueChange (calculateSummary ms) = NaN
     \<and> usersChange (calculateSummary ms) = NaN
     \<and> engagementChange (calculateSummary ms) = NaN"
proof -
  have ne: "ms \<noteq> []" using assms(1) by auto
  have k: "splitIndex (length ms) = 0" using assms(2) by (rule splitIndex_short)
  have f: "firstSegment ms = []" using assms(2) by (rule firstSegment_short)
  have l: "lastSegment ms = ms" using assms(2) by (rule lastSegment_short)
  have d: "lastSegment ms \<noteq> drop (length ms - nat (splitIndex (length ms))) ms"
    using ne by (simp add: k l)
  have r: "revenueChange (calculateSummary ms) = NaN"
    using ne by (simp add: calculateSummary_def Let_def f segAvg_Nil js_sub_NaN_right)
  have u: "usersChange (calculateSummary ms) = NaN"
    using ne by (simp add: calculateSummary_def Let_def f segAvg_Nil js_sub_NaN_right)
  have e: "engagementChange (calculateSummary ms) = NaN"
    using ne by (simp add: calculateSummary_def Let_def f segAvg_Nil js_sub_NaN_right)
  from k f l d r u e show ?thesis by blast
qed

theorem calculateSummary_short_input_witness:
  "1 \<le> length [point 0 100 10 50, point 1 200 20 60]
   \<and> length [point 0 100 10 50, point 1 200 20 60] < 5
   \<and> splitIndex (length [point 0 100 10 50, point 1 200 20 60]) = 0
   \<and> firstSegment [point 0 100 10 50, point 1 200 20 60] = []
   \<and> lastSegment [point 0 100 10 50, point 1 200 20 60]
       = [point 0 100 10 50, point 1 200 20 60]
   \<and> revenueChange (calculateSummary [point 0 100 10 50, point 1 200 20 60]) = NaN
   \<and> usersChange (calculateSummary [point 0 100 10 50, point 1 200 20 60]) = NaN
   \<and> engagementChange (calculateSummary [point 0 100 10 50, point 1 200 20 60]) = NaN"
  using calculateSummary_short_input [of "[point 0 100 10 50, point 1 200 20 60]"]
  by simp

lemma abs_div_ge1:
  assumes "(1::real) \<le> n"
  shows "\<bar>s / n\<bar> \<le> \<bar>s\<bar>"
proof -
  have "\<bar>s\<bar> / n \<le> \<bar>s\<bar> / 1"
    by (rule frac_le) (use assms in simp_all)
  then show ?thesis using assms by simp
qed




lemma sum_list_take_le:
  assumes "\<forall>n\<in>set ns. (0::int) \<le> n"
  shows "0 \<le> sum_list (take k ns) \<and> sum_list (take k ns) \<le> sum_list ns"
proof -
  have t: "\<forall>n\<in>set (take k ns). 0 \<le> n" using assms by (meson in_set_takeD)
  have d: "\<forall>n\<in>set (drop k ns). 0 \<le> n" using assms by (meson in_set_dropD)
  have 1: "0 \<le> sum_list (take k ns)" using t by (simp add: sum_list_nonneg)
  have 2: "0 \<le> sum_list (drop k ns)" using d by (simp add: sum_list_nonneg)
  have "sum_list ns = sum_list (take k ns @ drop k ns)" by simp
  also have "\<dots> = sum_list (take k ns) + sum_list (drop k ns)" by (rule sum_list_append)
  finally show ?thesis using 1 2 by linarith
qed

lemma sum_list_of_int: "sum_list (map real_of_int ns) = real_of_int (sum_list ns)"
  by (induction ns) simp_all

lemma integer_sums_dbl:
  assumes "\<forall>n\<in>set ns. (0::int) \<le> n" "sum_list ns < 2 ^ 53"
  shows "\<forall>k\<le>length ns. dbl (sum_list (take k (map real_of_int ns)))"
proof (intro allI impI)
  fix k
  have e: "sum_list (take k (map real_of_int ns)) = real_of_int (sum_list (take k ns))"
    by (simp only: take_map sum_list_of_int)
  have "\<bar>sum_list (take k ns)\<bar> < 2 ^ 53"
    using sum_list_take_le [OF assms(1), of k] assms(2) by linarith
  then show "dbl (sum_list (take k (map real_of_int ns)))"
    unfolding e by (rule dbl_int)
qed





section \<open>Ranges of the generated values\<close>

lemma finBetweenE:
  assumes "finBetween lo hi v"
  obtains x where "v = Fin x" "lo \<le> x" "x \<le> hi"
  using assms by (cases v) simp_all

lemma fb_const: "lo \<le> c \<Longrightarrow> c \<le> hi \<Longrightarrow> finBetween lo hi (Fin c)"
  by simp

lemma fb_weaken: "finBetween a b v \<Longrightarrow> a' \<le> a \<Longrightarrow> b \<le> b' \<Longrightarrow> finBetween a' b' v"
  by (cases v) simp_all

lemma fb_add:
  assumes "finBetween a b u" "finBetween c d v" "L \<le> a + c" "b + d \<le> U" "dbl L" "dbl U"
  shows "finBetween L U (js_add u v)"
proof -
  obtain x where x: "u = Fin x" "a \<le> x" "x \<le> b" using assms(1) by (rule finBetweenE)
  obtain y where y: "v = Fin y" "c \<le> y" "y \<le> d" using assms(2) by (rule finBetweenE)
  have "finBetween L U (fl (x + y))"
    using x y assms(3,4) by (intro fl_between assms(5,6)) linarith+
  then show ?thesis by (simp add: x y)
qed

lemma fb_sub:
  assumes "finBetween a b u" "finBetween c d v" "L \<le> a - d" "b - c \<le> U" "dbl L" "dbl U"
  shows "finBetween L U (js_sub u v)"
proof -
  obtain x where x: "u = Fin x" "a \<le> x" "x \<le> b" using assms(1) by (rule finBetweenE)
  obtain y where y: "v = Fin y" "c \<le> y" "y \<le> d" using assms(2) by (rule finBetweenE)
  have "finBetween L U (fl (x - y))"
    using x y assms(3,4) by (intro fl_between assms(5,6)) linarith+
  then show ?thesis by (simp add: x y js_sub_def)
qed

lemma fb_mul_const:
  assumes "finBetween a b u" "0 \<le> c" "L \<le> a * c" "b * c \<le> U" "dbl L" "dbl U"
  shows "finBetween L U (js_mul u (Fin c))"
proof -
  obtain x where x: "u = Fin x" "a \<le> x" "x \<le> b" using assms(1) by (rule finBetweenE)
  have 1: "a * c \<le> x * c" using x(2) assms(2) by (rule mult_right_mono)
  have 2: "x * c \<le> b * c" using x(3) assms(2) by (rule mult_right_mono)
  have "finBetween L U (fl (x * c))"
    using 1 2 assms(3,4) by (intro fl_between assms(5,6)) linarith+
  then show ?thesis by (simp add: x)
qed

lemma fb_div_const:
  assumes "finBetween a b u" "0 < c" "L \<le> a / c" "b / c \<le> U" "dbl L" "dbl U"
  shows "finBetween L U (js_div u (Fin c))"
proof -
  obtain x where x: "u = Fin x" "a \<le> x" "x \<le> b" using assms(1) by (rule finBetweenE)
  have 1: "a / c \<le> x / c" using x(2) assms(2) by (simp add: divide_right_mono)
  have 2: "x / c \<le> b / c" using x(3) assms(2) by (simp add: divide_right_mono)
  have "finBetween L U (fl (x / c))"
    using 1 2 assms(3,4) by (intro fl_between assms(5,6)) linarith+
  then show ?thesis using assms(2) by (simp add: x)
qed

lemma fb_mul_nonneg:
  assumes "finBetween a b u" "finBetween c d v" "0 \<le> a" "0 \<le> c" "b * d \<le> U" "dbl U"
  shows "finBetween 0 U (js_mul u v)"
proof -
  obtain x where x: "u = Fin x" "a \<le> x" "x \<le> b" using assms(1) by (rule finBetweenE)
  obtain y where y: "v = Fin y" "c \<le> y" "y \<le> d" using assms(2) by (rule finBetweenE)
  have 1: "0 \<le> x * y" using x(2) y(2) assms(3,4) by simp
  have 2: "x * y \<le> b * d" using x y assms(3,4) by (intro mult_mono) simp_all
  have "finBetween 0 U (fl (x * y))"
    using 1 2 assms(5) by (intro fl_between assms(6) dbl_0) linarith+
  then show ?thesis by (simp add: x y)
qed

lemma fb_mul_sym:
  assumes "finBetween (- a) a u" "0 \<le> c" "c \<le> d" "a * d \<le> U" "dbl U"
  shows "finBetween (- U) U (js_mul u (Fin c))"
proof -
  obtain x where x: "u = Fin x" "- a \<le> x" "x \<le> a" using assms(1) by (rule finBetweenE)
  have xa: "\<bar>x\<bar> \<le> a" using x(2,3) by linarith
  have "\<bar>x * c\<bar> = \<bar>x\<bar> * c" using assms(2) by (simp add: abs_mult)
  also have "\<dots> \<le> a * d" using xa assms(2,3) by (intro mult_mono) simp_all
  finally have "\<bar>x * c\<bar> \<le> U" using assms(4) by linarith
  then have "finBetween (- U) U (fl (x * c))"
    by (intro fl_between assms(5) dbl_neg) linarith+
  then show ?thesis by (simp add: x)
qed

lemma fb_sin: "finBetween a b u \<Longrightarrow> finBetween (- 1) 1 (js_sin u)"
proof -
  assume "finBetween a b u"
  then obtain x where x: "u = Fin x" by (rule finBetweenE)
  have "- 1 \<le> rnd (sin x) \<and> rnd (sin x) \<le> 1 \<and> \<bar>sin x\<bar> < dbl_limit"
    by (rule rnd_between) (simp_all add: dbl_simps)
  then show ?thesis by (simp add: x)
qed

lemma fb_round:
  assumes "finBetween a b u" "0 \<le> a"
  shows "finBetween 0 (b + 1) (js_round u)"
proof -
  obtain x where x: "u = Fin x" "a \<le> x" "x \<le> b" using assms(1) by (rule finBetweenE)
  have "0 \<le> \<lfloor>x + 1 / 2\<rfloor>" using x(2) assms(2) by simp
  then have lo: "0 \<le> real_of_int \<lfloor>x + 1 / 2\<rfloor>" by simp
  have "real_of_int \<lfloor>x + 1 / 2\<rfloor> \<le> x + 1 / 2" by (rule of_int_floor_le)
  then have hi: "real_of_int \<lfloor>x + 1 / 2\<rfloor> \<le> b + 1" using x(3) by linarith
  show ?thesis using lo hi by (simp add: x(1))
qed

lemma fb_clamp:
  assumes "finBetween a b u"
  shows "finBetween 40 90 (js_max (Fin 40) (js_min (Fin 90) u))"
proof -
  obtain x where x: "u = Fin x" using assms by (rule finBetweenE)
  show ?thesis by (simp add: x)
qed

lemma fb_toFixed2:
  assumes "finBetween 40 90 u"
  shows "finBetween 40 90 (js_toFixed2 u)"
proof -
  obtain x where x: "u = Fin x" "40 \<le> x" "x \<le> 90" using assms by (rule finBetweenE)
  have "x * 100 + 1 / 2 < 9001" using x(3) by simp
  then have "\<lfloor>x * 100 + 1 / 2\<rfloor> < 9001" by (simp add: floor_less_iff)
  then have hi: "\<lfloor>x * 100 + 1 / 2\<rfloor> \<le> 9000" by simp
  have "(4000::real) \<le> x * 100 + 1 / 2" using x(2) by simp
  then have lo: "4000 \<le> \<lfloor>x * 100 + 1 / 2\<rfloor>" by (simp add: le_floor_iff)
  have h: "real_of_int \<lfloor>x * 100 + 1 / 2\<rfloor> / 100 \<le> 90" using hi by simp
  have l: "40 \<le> real_of_int \<lfloor>x * 100 + 1 / 2\<rfloor> / 100" using lo by simp
  have r: "40 \<le> rnd (real_of_int \<lfloor>x * 100 + 1 / 2\<rfloor> / 100)
      \<and> rnd (real_of_int \<lfloor>x * 100 + 1 / 2\<rfloor> / 100) \<le> 90
      \<and> \<bar>real_of_int \<lfloor>x * 100 + 1 / 2\<rfloor> / 100\<bar> < dbl_limit"
    using l h by (rule rnd_between) (simp_all add: dbl_simps)
  have n1: "\<not> 10 ^ 21 \<le> \<bar>x\<bar>" using x(2,3) by simp
  have n2: "\<not> x < 0" using x(2) by simp
  have "js_toFixed2 (Fin x) = Fin (rnd (real_of_int \<lfloor>x * 100 + 1 / 2\<rfloor> / 100))"
    using n1 n2 by (simp only: js_toFixed2.simps if_False)
  then show ?thesis using r by (simp add: x(1))
qed

lemma js_pow_Fin: "js_pow (Fin a) n = fl (a ^ n)"
  by (cases n) (simp_all add: fl_def dbl_limit_def)

lemma fb_pow:
  assumes "finBetween 1 2 u" "n \<le> 100"
  shows "finBetween 1 (2 ^ 100) (js_pow u n)"
proof -
  obtain a where a: "u = Fin a" "1 \<le> a" "a \<le> 2" using assms(1) by (rule finBetweenE)
  have lo: "1 \<le> a ^ n" using a(2) by (rule one_le_power)
  have "a ^ n \<le> 2 ^ n" using a(2,3) by (intro power_mono) simp_all
  also have "\<dots> \<le> (2::real) ^ 100" using assms(2) by (intro power_increasing) simp_all
  finally have hi: "a ^ n \<le> 2 ^ 100" .
  have "finBetween 1 (2 ^ 100) (fl (a ^ n))"
    using lo hi dbl_1 by (rule fl_between) (rule dbl_pow2, simp)
  then show ?thesis by (simp only: a(1) js_pow_Fin)
qed

text \<open>The binary64 values of the literals lie in the ranges of the literals.\<close>

lemma literal_range:
  assumes "0 \<le> x" "x \<le> 1 / 2"
  shows "0 \<le> rnd x" "rnd x \<le> 1 / 2"
  using rnd_between [OF assms dbl_0 dbl_half] by simp_all

lemma literal_ranges:
  "0 \<le> rnd 0.15" "rnd 0.15 \<le> 1 / 2" "0 \<le> rnd 0.2" "rnd 0.2 \<le> 1 / 2"
  "0 \<le> rnd 0.1" "rnd 0.1 \<le> 1 / 2" "0 \<le> rnd 0.05" "rnd 0.05 \<le> 1 / 2"
  "0 \<le> rnd 0.3" "rnd 0.3 \<le> 1 / 2"
  by (rule literal_range; simp)+

lemma Math_PI_range: "0 \<le> Math_PI" "Math_PI \<le> 4"
proof -
  have "0 \<le> rnd pi \<and> rnd pi \<le> 4 \<and> \<bar>pi\<bar> < dbl_limit"
    by (rule rnd_between) (use pi_gt_zero pi_less_4 in \<open>simp_all add: dbl_simps\<close>)
  then show "0 \<le> Math_PI" "Math_PI \<le> 4" by (simp_all add: Math_PI_def)
qed

lemma weekendBoost_range: "1 \<le> rnd 1.2" "rnd 1.2 \<le> 2"
proof -
  have "1 \<le> rnd 1.2 \<and> rnd 1.2 \<le> 2 \<and> \<bar>1.2 :: real\<bar> < dbl_limit"
    by (rule rnd_between) (simp_all add: dbl_simps)
  then show "1 \<le> rnd 1.2" "rnd 1.2 \<le> 2" by simp_all
qed

lemma seasonal_range:
  assumes "0 \<le> m" "m \<le> 11" and amp: "0 \<le> amp" "amp \<le> 1 / 2"
  shows "finBetween (1 / 2) (3 / 2)
    (js_add (Fin 1)
       (js_mul (js_sin (js_mul (js_mul (js_div (js_sub (Fin (of_int m)) (Fin 5)) (Fin 12))
          (Fin Math_PI)) (Fin 2))) (Fin amp)))"
proof -
  have 0: "finBetween 0 11 (Fin (of_int m))" using assms by simp
  have 1: "finBetween (- 5) 6 (js_sub (Fin (of_int m)) (Fin 5))"
    by (rule fb_sub [OF 0, of 5 5]) (simp_all add: dbl_simps)
  have 2: "finBetween (- 1) 1 (js_div (js_sub (Fin (of_int m)) (Fin 5)) (Fin 12))"
    by (rule fb_div_const [OF 1]) (simp_all add: dbl_simps)
  have 5: "finBetween (- 1) 1 (js_sin (js_mul (js_mul
      (js_div (js_sub (Fin (of_int m)) (Fin 5)) (Fin 12)) (Fin Math_PI)) (Fin 2)))"
    by (rule fb_sin [OF fb_mul_const [OF fb_mul_sym [OF 2 Math_PI_range, of 4], of 2 "- 8" 8]])
      (simp_all add: dbl_simps)
  have 6: "finBetween (- (1 / 2)) (1 / 2) (js_mul (js_sin (js_mul (js_mul
      (js_div (js_sub (Fin (of_int m)) (Fin 5)) (Fin 12)) (Fin Math_PI)) (Fin 2))) (Fin amp))"
    by (rule fb_mul_sym [OF 5 amp]) (simp_all add: dbl_simps)
  have 7: "finBetween 1 1 (Fin 1)" by simp
  show ?thesis by (rule fb_add [OF 7 6]) (simp_all add: dbl_simps)
qed

lemma volatility_range:
  assumes "0 \<le> r" "r < 1" "0 \<le> g" "g \<le> 1 / 2"
  shows "finBetween (1 / 2) (3 / 2) (volatility r g)"
proof -
  have 0: "finBetween 0 1 (Fin r)" using assms by simp
  have h: "finBetween 0.5 0.5 (Fin 0.5)" by simp
  have 1: "finBetween (- (1 / 2)) (1 / 2) (js_sub (Fin r) (Fin 0.5))"
    by (rule fb_sub [OF 0 h]) (simp_all add: dbl_simps)
  have 2: "finBetween (- 1) 1 (js_mul (js_sub (Fin r) (Fin 0.5)) (Fin 2))"
    by (rule fb_mul_const [OF 1]) (simp_all add: dbl_simps)
  have 3: "finBetween (- (1 / 2)) (1 / 2)
      (js_mul (js_mul (js_sub (Fin r) (Fin 0.5)) (Fin 2)) (Fin g))"
    by (rule fb_mul_sym [OF 2 assms(3,4)]) (simp_all add: dbl_simps)
  have 7: "finBetween 1 1 (Fin 1)" by simp
  show ?thesis unfolding volatility_def
    by (rule fb_add [OF 7 3]) (simp_all add: dbl_simps)
qed

lemma growth_range:
  assumes "0 \<le> g" "g \<le> 1 / 2" "n \<le> 100"
  shows "finBetween 1 (2 ^ 100) (js_pow (js_add (Fin 1) (js_div (Fin g) (Fin 30))) n)"
proof -
  have 0: "finBetween 0 (1 / 2) (Fin g)" using assms by simp
  have 1: "finBetween 0 1 (js_div (Fin g) (Fin 30))"
    by (rule fb_div_const [OF 0]) (simp_all add: dbl_simps)
  have 7: "finBetween 1 1 (Fin 1)" by simp
  have 2: "finBetween 1 2 (js_add (Fin 1) (js_div (Fin g) (Fin 30)))"
    by (rule fb_add [OF 7 1]) (simp_all add: dbl_simps)
  show ?thesis using 2 assms(3) by (rule fb_pow)
qed

lemma product_range:
  assumes b: "0 \<le> base" "base \<le> 2 ^ 20"
    and g: "finBetween 1 (2 ^ 100) growth"
    and s: "finBetween (1 / 2) (3 / 2) seasonal"
    and w: "finBetween 1 2 weekend"
    and v: "finBetween (1 / 2) (3 / 2) vol"
  shows "finBetween 0 (2 ^ 130)
    (js_round (js_mul (js_mul (js_mul (js_mul (Fin base) growth) seasonal) weekend) vol))"
proof -
  have 0: "finBetween 0 (2 ^ 20) (Fin base)" using b by simp
  have 1: "finBetween 0 (2 ^ 120) (js_mul (Fin base) growth)"
    by (rule fb_mul_nonneg [OF 0 g _ _ _ dbl_pow2]) simp_all
  have 2: "finBetween 0 (2 ^ 121) (js_mul (js_mul (Fin base) growth) seasonal)"
    by (rule fb_mul_nonneg [OF 1 s _ _ _ dbl_pow2]) simp_all
  have 3: "finBetween 0 (2 ^ 122) (js_mul (js_mul (js_mul (Fin base) growth) seasonal) weekend)"
    by (rule fb_mul_nonneg [OF 2 w _ _ _ dbl_pow2]) simp_all
  have 4: "finBetween 0 (2 ^ 123)
      (js_mul (js_mul (js_mul (js_mul (Fin base) growth) seasonal) weekend) vol)"
    by (rule fb_mul_nonneg [OF 3 v _ _ _ dbl_pow2]) simp_all
  have "finBetween 0 (2 ^ 123 + 1)
      (js_round (js_mul (js_mul (js_mul (js_mul (Fin base) growth) seasonal) weekend) vol))"
    by (rule fb_round [OF 4]) simp
  then show ?thesis by (rule fb_weaken) simp_all
qed

lemma engagement_range:
  assumes t: "0 < totalPoints" and n: "index \<le> 100" and v: "finBetween (1 / 2) (3 / 2) vol"
  shows "finBetween 40 90
    (js_toFixed2 (js_max (Fin 40) (js_min (Fin 90)
       (js_mul (js_mul (Fin (baseEngagement DATA_GENERATION))
          (js_add (Fin 1) (js_mul (js_sin (js_mul (js_mul
              (js_div (Fin (real index)) (Fin (real totalPoints))) (Fin Math_PI)) (Fin 4)))
            (Fin (rnd 0.1)))))
        vol))))"
proof -
  have c: "1 \<le> real totalPoints" using t by simp
  have q: "real index / real totalPoints \<le> 100"
  proof -
    have "\<bar>real index / real totalPoints\<bar> \<le> \<bar>real index\<bar>"
      by (rule abs_div_ge1 [OF c])
    then show ?thesis using n by simp
  qed
  have q0: "0 \<le> real index / real totalPoints" by simp
  have "finBetween 0 100 (fl (real index / real totalPoints))"
    using q0 q by (rule fl_between) (simp_all add: dbl_simps)
  then have 1: "finBetween 0 100 (js_div (Fin (real index)) (Fin (real totalPoints)))"
    using t by simp
  have pr: "finBetween 0 4 (Fin Math_PI)" using Math_PI_range by simp
  have 2: "finBetween 0 400
      (js_mul (js_div (Fin (real index)) (Fin (real totalPoints))) (Fin Math_PI))"
    by (rule fb_mul_nonneg [OF 1 pr]) (simp_all add: dbl_simps)
  have 4: "finBetween (- 1) 1 (js_sin
      (js_mul (js_mul (js_div (Fin (real index)) (Fin (real totalPoints))) (Fin Math_PI))
        (Fin 4)))"
    by (rule fb_sin [OF fb_mul_const [OF 2, of 4 0 1600]]) (simp_all add: dbl_simps)
  have 5: "finBetween (- (1 / 2)) (1 / 2) (js_mul (js_sin
      (js_mul (js_mul (js_div (Fin (real index)) (Fin (real totalPoints))) (Fin Math_PI))
        (Fin 4))) (Fin (rnd 0.1)))"
    by (rule fb_mul_sym [OF 4 literal_ranges(5,6)]) (simp_all add: dbl_simps)
  have 7: "finBetween 1 1 (Fin 1)" by simp
  have 6: "finBetween (1 / 2) (3 / 2) (js_add (Fin 1) (js_mul (js_sin
      (js_mul (js_mul (js_div (Fin (real index)) (Fin (real totalPoints))) (Fin Math_PI))
        (Fin 4))) (Fin (rnd 0.1))))"
    by (rule fb_add [OF 7 5]) (simp_all add: dbl_simps)
  have b: "finBetween 65 65 (Fin (baseEngagement DATA_GENERATION))"
    by (simp add: DATA_GENERATION_def)
  have 8: "finBetween 0 100
      (js_mul (Fin (baseEngagement DATA_GENERATION)) (js_add (Fin 1) (js_mul (js_sin
      (js_mul (js_mul (js_div (Fin (real index)) (Fin (real totalPoints))) (Fin Math_PI))
        (Fin 4))) (Fin (rnd 0.1)))))"
    by (rule fb_mul_nonneg [OF b 6]) (simp_all add: dbl_simps)
  have 9: "finBetween 0 150
      (js_mul (js_mul (Fin (baseEngagement DATA_GENERATION)) (js_add (Fin 1) (js_mul (js_sin
      (js_mul (js_mul (js_div (Fin (real index)) (Fin (real totalPoints))) (Fin Math_PI))
        (Fin 4))) (Fin (rnd 0.1))))) vol)"
    by (rule fb_mul_nonneg [OF 8 v]) (simp_all add: dbl_simps)
  show ?thesis by (intro fb_toFixed2 fb_clamp [OF 9])
qed

lemma Math_random_range:
  assumes "\<forall>n. 0 \<le> mathRandom E n \<and> mathRandom E n < 1"
  shows "0 \<le> fst (Math_random E w)" "fst (Math_random E w) < 1"
  using assms by (simp_all add: Math_random_def)

lemma generateMetricPoint_ranges:
  assumes rnd: "\<forall>n. 0 \<le> mathRandom E n \<and> mathRandom E n < 1"
    and month: "\<forall>t. 0 \<le> getMonth E t \<and> getMonth E t \<le> 11"
    and t: "0 < totalPoints" and n: "index \<le> 100"
  shows "timestamp (fst (generateMetricPoint E d index totalPoints w)) = d"
    and "finBetween 0 (2 ^ 130) (revenue (fst (generateMetricPoint E d index totalPoints w)))"
    and "finBetween 0 (2 ^ 130) (activeUsers (fst (generateMetricPoint E d index totalPoints w)))"
    and "finBetween 40 90 (engagementRate (fst (generateMetricPoint E d index totalPoints w)))"
proof -
  have m: "0 \<le> getMonth E d" "getMonth E d \<le> 11" using month by simp_all
  have wk: "finBetween 1 2 (if isWeekend E d then Fin (weekendBoost DATA_GENERATION) else Fin 1)"
    using weekendBoost_range by (simp add: DATA_GENERATION_def)
  have vol: "\<And>w' g. 0 \<le> g \<Longrightarrow> g \<le> 1 / 2 \<Longrightarrow>
      finBetween (1 / 2) (3 / 2) (volatility (fst (Math_random E w')) g)"
    using Math_random_range [OF rnd] by (intro volatility_range) simp_all
  show "timestamp (fst (generateMetricPoint E d index totalPoints w)) = d"
    by (simp add: generateMetricPoint_def Let_def split_def)
  show "finBetween 0 (2 ^ 130) (revenue (fst (generateMetricPoint E d index totalPoints w)))"
    unfolding generateMetricPoint_def Let_def split_def fst_conv Metric.select_convs
    by (intro product_range growth_range seasonal_range [OF m] wk vol n)
      (use literal_ranges in \<open>simp_all add: DATA_GENERATION_def\<close>)
  show "finBetween 0 (2 ^ 130) (activeUsers (fst (generateMetricPoint E d index totalPoints w)))"
    unfolding generateMetricPoint_def Let_def split_def fst_conv Metric.select_convs
    by (intro product_range growth_range seasonal_range [OF m] wk vol n)
      (use literal_ranges in \<open>simp_all add: DATA_GENERATION_def\<close>)
  show "finBetween 40 90 (engagementRate (fst (generateMetricPoint E d index totalPoints w)))"
    unfolding generateMetricPoint_def Let_def split_def fst_conv Metric.select_convs
    by (intro engagement_range vol t n)
      (use literal_ranges in \<open>simp_all add: DATA_GENERATION_def\<close>)
qed

section \<open>The generation loop\<close>

declare generateLoop.simps [simp del]

lemma timestamp_generateMetricPoint:
  "timestamp (fst (generateMetricPoint E d index totalPoints w)) = d"
  by (simp add: generateMetricPoint_def Let_def split_def)

lemma generateLoop_stop:
  "\<not> (cur \<le> to \<and> idx < tp) \<Longrightarrow> generateLoop E to iv tp cur idx acc w = (acc, w)"
  by (subst generateLoop.simps) (rule if_not_P)

lemma generateLoop_step:
  "cur \<le> to \<and> idx < tp \<Longrightarrow> generateMetricPoint E cur idx tp w = (m, w1) \<Longrightarrow>
   generateLoop E to iv tp cur idx acc w
     = generateLoop E to iv tp (addHours cur (int iv)) (Suc idx) (acc @ [m]) w1"
  by (subst generateLoop.simps) simp

lemma generateLoop_all:
  assumes "\<forall>m\<in>set acc. P m"
    and "\<And>d i w'. i < tp \<Longrightarrow> P (fst (generateMetricPoint E d i tp w'))"
  shows "\<forall>m\<in>set (fst (generateLoop E to iv tp cur idx acc w)). P m"
  using assms
proof (induction E to iv tp cur idx acc w rule: generateLoop.induct)
  case (1 E to iv tp cur idx acc w)
  show ?case
  proof (cases "cur \<le> to \<and> idx < tp")
    case True
    obtain m w1 where g: "generateMetricPoint E cur idx tp w = (m, w1)"
      by (cases "generateMetricPoint E cur idx tp w")
    have "P m" using "1.prems"(2) [of idx cur w] True g by simp
    then have acc': "\<forall>x\<in>set (acc @ [m]). P x" using "1.prems"(1) by simp
    have "\<forall>x\<in>set (fst (generateLoop E to iv tp (addHours cur (int iv)) (Suc idx) (acc @ [m]) w1)). P x"
      using "1.IH" [OF True g [symmetric] refl acc'] "1.prems"(2) by blast
    then show ?thesis by (simp only: generateLoop_step [OF True g])
  next
    case False
    show ?thesis using "1.prems"(1) by (simp only: generateLoop_stop [OF False] fst_conv)
  qed
qed

lemma generateLoop_timestamps:
  assumes "idx < tp \<longrightarrow> cur + int (tp - idx - 1) * (int iv * 3600000) \<le> to"
  shows "map timestamp (fst (generateLoop E to iv tp cur idx acc w))
     = map timestamp acc @ map (\<lambda>j. cur + int j * (int iv * 3600000)) [0..<tp - idx]"
  using assms
proof (induction E to iv tp cur idx acc w rule: generateLoop.induct)
  case (1 E to iv tp cur idx acc w)
  show ?case
  proof (cases "idx < tp")
    case True
    have "0 \<le> int (tp - idx - 1) * (int iv * 3600000)" by simp
    then have le: "cur \<le> to" using "1.prems" True by linarith
    have c: "cur \<le> to \<and> idx < tp" using le True by simp
    obtain m w1 where g: "generateMetricPoint E cur idx tp w = (m, w1)"
      by (cases "generateMetricPoint E cur idx tp w")
    have tm: "timestamp m = cur"
      using timestamp_generateMetricPoint [of E cur idx tp w] g by simp
    have fit: "Suc idx < tp \<longrightarrow>
        addHours cur (int iv) + int (tp - Suc idx - 1) * (int iv * 3600000) \<le> to"
    proof
      assume s: "Suc idx < tp"
      then have "int (tp - idx - 1) = int (tp - Suc idx - 1) + 1" by simp
      then have "cur + int (tp - idx - 1) * (int iv * 3600000)
          = addHours cur (int iv) + int (tp - Suc idx - 1) * (int iv * 3600000)"
        by (simp add: addHours_def algebra_simps)
      then show "addHours cur (int iv) + int (tp - Suc idx - 1) * (int iv * 3600000) \<le> to"
        using "1.prems" True by simp
    qed
    have IH: "map timestamp (fst (generateLoop E to iv tp (addHours cur (int iv)) (Suc idx) (acc @ [m]) w1))
       = map timestamp (acc @ [m]) @
         map (\<lambda>j. addHours cur (int iv) + int j * (int iv * 3600000)) [0..<tp - Suc idx]"
      using "1.IH" [OF c g [symmetric] refl fit] .
    define k where "k = tp - Suc idx"
    have e: "tp - idx = Suc k" using True by (simp add: k_def)
    have u: "[0..<Suc k] = 0 # map Suc [0..<k]"
      by (simp add: upt_conv_Cons map_Suc_upt del: upt_Suc)
    have "map (\<lambda>j. cur + int j * (int iv * 3600000)) [0..<Suc k]
        = cur # map (\<lambda>j. addHours cur (int iv) + int j * (int iv * 3600000)) [0..<k]"
      unfolding u by (simp add: addHours_def algebra_simps o_def)
    then have "map (\<lambda>j. cur + int j * (int iv * 3600000)) [0..<tp - idx]
        = cur # map (\<lambda>j. addHours cur (int iv) + int j * (int iv * 3600000)) [0..<tp - Suc idx]"
      by (simp only: e k_def)
    then show ?thesis
      using IH tm by (simp only: generateLoop_step [OF c g]) simp
  next
    case False
    then have n: "\<not> (cur \<le> to \<and> idx < tp)" by simp
    show ?thesis using False by (simp only: generateLoop_stop [OF n] fst_conv) simp
  qed
qed

section \<open>Day arithmetic\<close>

lemma startOfDay_mod: "startOfDay t mod 86400000 = 0"
  by (simp add: startOfDay_def mod_diff_right_eq)

lemma startOfDay_shift_mod: "(startOfDay t - n * 86400000) mod 86400000 = 0"
proof -
  have "(startOfDay t - n * 86400000) mod 86400000
      = (startOfDay t mod 86400000 - n * 86400000 mod 86400000) mod 86400000"
    by (rule mod_diff_eq [symmetric])
  then show ?thesis by (simp add: startOfDay_mod)
qed

lemma startOfDay_offset:
  assumes "a mod 86400000 = 0" "0 \<le> r" "r < 86400000"
  shows "startOfDay (a + r) = a"
proof -
  have "(a + r) mod 86400000 = (a mod 86400000 + r) mod 86400000"
    by (simp add: mod_add_left_eq)
  also have "\<dots> = r mod 86400000" using assms(1) by simp
  also have "\<dots> = r" using assms(2,3) by simp
  finally show ?thesis by (simp add: startOfDay_def)
qed

lemma startOfDay_subDays_endOfDay:
  assumes "0 \<le> n"
  shows "startOfDay (subDays (endOfDay t) n) = startOfDay t - n * 86400000"
proof -
  have m: "(startOfDay t - n * 86400000) mod 86400000 = 0"
    by (rule startOfDay_shift_mod)
  have "subDays (endOfDay t) n = (startOfDay t - n * 86400000) + 86399999"
    by (simp add: subDays_def endOfDay_def)
  then show ?thesis using startOfDay_offset [OF m, of 86399999] by simp
qed

lemma startOfDay_idem_shift:
  "startOfDay (startOfDay t - n * 86400000) = startOfDay t - n * 86400000"
proof -
  have m: "(startOfDay t - n * 86400000) mod 86400000 = 0"
    by (rule startOfDay_shift_mod)
  show ?thesis using startOfDay_offset [OF m, of 0] by simp
qed

section \<open>Properties of generateMetrics\<close>

lemma dateRange_start:
  assumes "0 \<le> n"
  shows "startOfDay (startOfDay (subDays (endOfDay t) n)) = startOfDay t - n * 86400000"
  by (simp only: startOfDay_subDays_endOfDay [OF assms] startOfDay_idem_shift)

lemma loop_24h:
  "generateMetrics E ''24h'' w =
     generateLoop E (startOfDay (systemClock E (clockReads w)) + 86399999) 1 24
       (startOfDay (systemClock E (clockReads w)) - 86400000) 0 []
       (w\<lparr>clockReads := Suc (clockReads w)\<rparr>)"
  using dateRange_start [of 1 "systemClock E (clockReads w)"]
  by (simp add: generateMetrics_def getDateRangeFromTimeRange_def intervalAndPoints_def
      Date_now_def Let_def endOfDay_def)

lemma point_values:
  assumes rnd: "\<forall>n. 0 \<le> mathRandom E n \<and> mathRandom E n < 1"
    and month: "\<forall>t. 0 \<le> getMonth E t \<and> getMonth E t \<le> 11"
    and t: "0 < totalPoints" and n: "index \<le> 100"
  shows "\<exists>r u e. revenue (fst (generateMetricPoint E d index totalPoints w)) = Fin r \<and> 0 \<le> r
     \<and> activeUsers (fst (generateMetricPoint E d index totalPoints w)) = Fin u \<and> 0 \<le> u
     \<and> engagementRate (fst (generateMetricPoint E d index totalPoints w)) = Fin e
     \<and> 40 \<le> e \<and> e \<le> 90"
proof -
  obtain r where r: "revenue (fst (generateMetricPoint E d index totalPoints w)) = Fin r" "0 \<le> r"
    using generateMetricPoint_ranges(2) [OF rnd month t n, of d w] by (rule finBetweenE)
  obtain u where u: "activeUsers (fst (generateMetricPoint E d index totalPoints w)) = Fin u" "0 \<le> u"
    using generateMetricPoint_ranges(3) [OF rnd month t n, of d w] by (rule finBetweenE)
  obtain e where e: "engagementRate (fst (generateMetricPoint E d index totalPoints w)) = Fin e"
      "40 \<le> e" "e \<le> 90"
    using generateMetricPoint_ranges(4) [OF rnd month t n, of d w] by (rule finBetweenE)
  show ?thesis using r u e by blast
qed

text \<open>
  Claim C5. \<open>generateMetrics("24h")\<close> returns exactly 24 points, their timestamps start
  at the start of the previous day and ascend in steps of exactly one hour, and every point
  has a finite \<open>revenue \<ge> 0\<close>, a finite \<open>activeUsers \<ge> 0\<close> and \<open>40 \<le> engagementRate \<le> 90\<close>.
  \<open>Math.random\<close> returns values in \<open>[0, 1)\<close> and \<open>getMonth\<close> values in \<open>0..11\<close>.
\<close>

theorem generateMetrics_24h:
  assumes rnd: "\<forall>n. 0 \<le> mathRandom E n \<and> mathRandom E n < 1"
    and month: "\<forall>t. 0 \<le> getMonth E t \<and> getMonth E t \<le> 11"
  shows "length (fst (generateMetrics E ''24h'' w)) = 24
     \<and> map timestamp (fst (generateMetrics E ''24h'' w))
         = map (\<lambda>j. startOfDay (systemClock E (clockReads w)) - 86400000 + int j * 3600000)
             [0..<24]
     \<and> (\<forall>i<23. timestamp (fst (generateMetrics E ''24h'' w) ! Suc i)
           = timestamp (fst (generateMetrics E ''24h'' w) ! i) + 3600000)
     \<and> (\<forall>m\<in>set (fst (generateMetrics E ''24h'' w)).
           \<exists>r u e. revenue m = Fin r \<and> 0 \<le> r \<and> activeUsers m = Fin u \<and> 0 \<le> u
             \<and> engagementRate m = Fin e \<and> 40 \<le> e \<and> e \<le> 90)"
proof -
  let ?ms = "fst (generateMetrics E ''24h'' w)"
  let ?s = "startOfDay (systemClock E (clockReads w)) - 86400000"
  have ts: "map timestamp ?ms = map (\<lambda>j. ?s + int j * 3600000) [0..<24]"
    using generateLoop_timestamps [of 0 24 ?s 1 "?s + 86400000 + 86399999" E "[]"
        "w\<lparr>clockReads := Suc (clockReads w)\<rparr>"]
    by (simp add: loop_24h)
  have "length (map timestamp ?ms) = 24" by (simp only: ts) simp
  then have len: "length ?ms = 24" by simp
  have step: "\<forall>i<23. timestamp (?ms ! Suc i) = timestamp (?ms ! i) + 3600000"
  proof (intro allI impI)
    fix i :: nat assume i: "i < 23"
    have 1: "timestamp (?ms ! Suc i) = map timestamp ?ms ! Suc i" using i len by simp
    have 2: "timestamp (?ms ! i) = map timestamp ?ms ! i" using i len by simp
    show "timestamp (?ms ! Suc i) = timestamp (?ms ! i) + 3600000"
      unfolding 1 2 ts using i by simp
  qed
  have vals: "\<forall>m\<in>set ?ms. \<exists>r u e. revenue m = Fin r \<and> 0 \<le> r \<and> activeUsers m = Fin u \<and> 0 \<le> u
             \<and> engagementRate m = Fin e \<and> 40 \<le> e \<and> e \<le> 90"
    unfolding loop_24h
  proof (rule generateLoop_all)
    show "\<forall>m\<in>set []. \<exists>r u e. revenue m = Fin r \<and> 0 \<le> r \<and> activeUsers m = Fin u \<and> 0 \<le> u
             \<and> engagementRate m = Fin e \<and> 40 \<le> e \<and> e \<le> 90"
      by simp
  next
    fix d :: int and i :: nat and w' :: world
    assume "i < 24"
    then have "i \<le> 100" by simp
    then show "\<exists>r u e. revenue (fst (generateMetricPoint E d i 24 w')) = Fin r \<and> 0 \<le> r
        \<and> activeUsers (fst (generateMetricPoint E d i 24 w')) = Fin u \<and> 0 \<le> u
        \<and> engagementRate (fst (generateMetricPoint E d i 24 w')) = Fin e \<and> 40 \<le> e \<and> e \<le> 90"
      by (intro point_values [OF rnd month]) simp_all
  qed
  from len ts step vals show ?thesis by blast
qed

theorem generateMetrics_24h_witness:
  "(\<forall>n. 0 \<le> mathRandom sampleEnv n \<and> mathRandom sampleEnv n < 1)
   \<and> (\<forall>t. 0 \<le> getMonth sampleEnv t \<and> getMonth sampleEnv t \<le> 11)
   \<and> length (fst (generateMetrics sampleEnv ''24h'' sampleWorld)) = 24
   \<and> map timestamp (fst (generateMetrics sampleEnv ''24h'' sampleWorld))
       = map (\<lambda>j. 1699833600000 + int j * 3600000) [0..<24]
   \<and> list_all (\<lambda>m. \<exists>r u e. revenue m = Fin r \<and> 0 \<le> r \<and> activeUsers m = Fin u \<and> 0 \<le> u
             \<and> engagementRate m = Fin e \<and> 40 \<le> e \<and> e \<le> 90)
        (fst (generateMetrics sampleEnv ''24h'' sampleWorld))"
proof -
  have r: "\<forall>n. 0 \<le> mathRandom sampleEnv n \<and> mathRandom sampleEnv n < 1"
    by (simp add: sampleEnv_def)
  have m: "\<forall>t. 0 \<le> getMonth sampleEnv t \<and> getMonth sampleEnv t \<le> 11"
    by (simp add: sampleEnv_def)
  have s: "startOfDay (systemClock sampleEnv (clockReads sampleWorld)) - 86400000 = 1699833600000"
    by (simp add: sampleEnv_def sampleWorld_def startOfDay_def)
  show ?thesis
    using generateMetrics_24h [OF r m, of sampleWorld] r m
    by (simp only: s list_all_iff) simp
qed

section \<open>Lengths and timestamps for every time range\<close>

lemma daysBack_nonneg: "0 \<le> daysBack tr"
  by (simp add: daysBack_def)

lemma generateMetrics_loop:
  "generateMetrics E tr w =
     generateLoop E (startOfDay (systemClock E (clockReads w)) + 86399999)
       (fst (intervalAndPoints tr)) (snd (intervalAndPoints tr))
       (startOfDay (systemClock E (clockReads w)) - daysBack tr * 86400000) 0 []
       (w\<lparr>clockReads := Suc (clockReads w)\<rparr>)"
proof -
  have "\<And>n. 0 \<le> n \<Longrightarrow> startOfDay (startOfDay (subDays (endOfDay (systemClock E (clockReads w))) n))
      = startOfDay (systemClock E (clockReads w)) - n * 86400000"
    by (rule dateRange_start)
  then show ?thesis
    by (simp add: generateMetrics_def getDateRangeFromTimeRange_def Date_now_def Let_def
        split_def endOfDay_def daysBack_def)
qed

lemma range_fits:
  "int (snd (intervalAndPoints tr) - 1) * (int (fst (intervalAndPoints tr)) * 3600000)
     \<le> daysBack tr * 86400000 + 86399999"
  by (simp add: intervalAndPoints_def daysBack_def)

lemma generateMetrics_timestamps:
  "map timestamp (fst (generateMetrics E tr w))
     = map (\<lambda>j. startOfDay (systemClock E (clockReads w)) - daysBack tr * 86400000
              + int j * (int (fst (intervalAndPoints tr)) * 3600000))
         [0..<snd (intervalAndPoints tr)]"
proof -
  let ?s = "startOfDay (systemClock E (clockReads w))"
  have fit: "0 < snd (intervalAndPoints tr) \<longrightarrow>
      ?s - daysBack tr * 86400000
        + int (snd (intervalAndPoints tr) - 0 - 1) * (int (fst (intervalAndPoints tr)) * 3600000)
      \<le> ?s + 86399999"
    unfolding diff_zero using range_fits [of tr] by (intro impI) linarith
  show ?thesis
    using generateLoop_timestamps [OF fit, of E "[]" "w\<lparr>clockReads := Suc (clockReads w)\<rparr>"]
    by (simp add: generateMetrics_loop)
qed

lemma generateMetrics_length:
  "length (fst (generateMetrics E tr w)) = snd (intervalAndPoints tr)"
proof -
  have "length (map timestamp (fst (generateMetrics E tr w))) = snd (intervalAndPoints tr)"
    by (simp only: generateMetrics_timestamps) simp
  then show ?thesis by simp
qed

lemma generateMetrics_nonempty: "fst (generateMetrics E tr w) \<noteq> []"
proof -
  have "0 < snd (intervalAndPoints tr)" by (simp add: intervalAndPoints_def)
  then have "0 < length (fst (generateMetrics E tr w))" by (simp only: generateMetrics_length)
  then show ?thesis by simp
qed

section \<open>Properties of the history endpoint\<close>

lemma GET_metrics_invalid:
  assumes "tr \<notin> set validRanges"
    and "tr = (case param of None \<Rightarrow> ''30d'' | Some v \<Rightarrow> if v = [] then ''30d'' else v)"
  shows "fst (GET_metrics E param w) =
           \<lparr> status = 400, body = ErrorBody ''Invalid time range parameter'' \<rparr>"
  using assms by (simp add: GET_metrics_def Let_def)

lemma GET_metrics_valid:
  assumes "tr \<in> set validRanges"
    and "tr = (case param of None \<Rightarrow> ''30d'' | Some v \<Rightarrow> if v = [] then ''30d'' else v)"
  shows "fst (GET_metrics E param w) =
           \<lparr> status = 200,
             body = MetricsBody (fst (generateMetrics E tr w))
                      (calculateSummary (fst (generateMetrics E tr w)))
                      (timestamp (hd (fst (generateMetrics E tr w))))
                      (timestamp (last (fst (generateMetrics E tr w)))) \<rparr>"
proof -
  obtain ms w1 where g: "generateMetrics E tr w = (ms, w1)"
    by (cases "generateMetrics E tr w")
  have ne: "ms \<noteq> []" using generateMetrics_nonempty [of E tr w] g by simp
  then obtain m rest where c: "ms = m # rest" by (cases ms) simp_all
  have l: "ms ! (length ms - Suc 0) = last ms" using ne by (simp add: last_conv_nth)
  have "fst (GET_metrics E param w) =
      \<lparr> status = 200, body = MetricsBody ms (calculateSummary ms) (timestamp (hd ms))
          (timestamp (ms ! (length ms - 1))) \<rparr>"
    using assms g c by (simp add: GET_metrics_def Let_def)
  then show ?thesis by (simp add: g l)
qed

text \<open>
  Claim C8, as amended. The endpoint returns status 400 with an error body if and only if
  the supplied \<open>timeRange\<close> value is non-empty and not one of \<open>24h\<close>, \<open>7d\<close>, \<open>30d\<close>, \<open>90d\<close>,
  \<open>1y\<close>, \<open>all\<close>. A missing or empty value is served as \<open>30d\<close>. For a recognized, missing
  or empty value it returns status 200 with a body holding the generated data array (never
  empty), its summary, and the timestamps of the first and the last point as bounds.
\<close>

theorem GET_metrics_status:
  "(status (fst (GET_metrics E param w)) = 400
      \<longleftrightarrow> (\<exists>v. param = Some v \<and> v \<noteq> [] \<and> v \<notin> set validRanges))
   \<and> (status (fst (GET_metrics E param w)) = 400 \<longrightarrow>
        body (fst (GET_metrics E param w)) = ErrorBody ''Invalid time range parameter'')
   \<and> (status (fst (GET_metrics E param w)) \<noteq> 400 \<longrightarrow>
        (\<exists>tr. tr \<in> set validRanges
           \<and> tr = (case param of None \<Rightarrow> ''30d'' | Some v \<Rightarrow> if v = [] then ''30d'' else v)
           \<and> fst (generateMetrics E tr w) \<noteq> []
           \<and> fst (GET_metrics E param w) =
               \<lparr> status = 200,
                 body = MetricsBody (fst (generateMetrics E tr w))
                          (calculateSummary (fst (generateMetrics E tr w)))
                          (timestamp (hd (fst (generateMetrics E tr w))))
                          (timestamp (last (fst (generateMetrics E tr w)))) \<rparr>))"
proof -
  define tr where "tr = (case param of None \<Rightarrow> ''30d'' | Some v \<Rightarrow> if v = [] then ''30d'' else v)"
  have d: "''30d'' \<in> set validRanges" by (simp add: validRanges_def)
  have iff: "tr \<notin> set validRanges \<longleftrightarrow> (\<exists>v. param = Some v \<and> v \<noteq> [] \<and> v \<notin> set validRanges)"
    using d by (cases param) (auto simp: tr_def)
  show ?thesis
  proof (cases "tr \<in> set validRanges")
    case True
    have r: "fst (GET_metrics E param w) =
           \<lparr> status = 200,
             body = MetricsBody (fst (generateMetrics E tr w))
                      (calculateSummary (fst (generateMetrics E tr w)))
                      (timestamp (hd (fst (generateMetrics E tr w))))
                      (timestamp (last (fst (generateMetrics E tr w)))) \<rparr>"
      using GET_metrics_valid [OF True tr_def] .
    have s: "status (fst (GET_metrics E param w)) = 200" by (simp add: r)
    have "\<exists>tr. tr \<in> set validRanges
           \<and> tr = (case param of None \<Rightarrow> ''30d'' | Some v \<Rightarrow> if v = [] then ''30d'' else v)
           \<and> fst (generateMetrics E tr w) \<noteq> []
           \<and> fst (GET_metrics E param w) =
               \<lparr> status = 200,
                 body = MetricsBody (fst (generateMetrics E tr w))
                          (calculateSummary (fst (generateMetrics E tr w)))
                          (timestamp (hd (fst (generateMetrics E tr w))))
                          (timestamp (last (fst (generateMetrics E tr w)))) \<rparr>"
      using True tr_def generateMetrics_nonempty r by blast
    then show ?thesis using s iff True by simp
  next
    case False
    have r: "fst (GET_metrics E param w) =
           \<lparr> status = 400, body = ErrorBody ''Invalid time range parameter'' \<rparr>"
      using GET_metrics_invalid [OF False tr_def] .
    have "status (fst (GET_metrics E param w)) = 400"
      "body (fst (GET_metrics E param w)) = ErrorBody ''Invalid time range parameter''"
      by (simp_all add: r)
    then show ?thesis using iff False by simp
  qed
qed

theorem GET_metrics_status_witness:
  "status (fst (GET_metrics sampleEnv (Some ''7x'') sampleWorld)) = 400
   \<and> body (fst (GET_metrics sampleEnv (Some ''7x'') sampleWorld))
       = ErrorBody ''Invalid time range parameter''
   \<and> status (fst (GET_metrics sampleEnv (Some ''7d'') sampleWorld)) = 200
   \<and> body (fst (GET_metrics sampleEnv (Some ''7d'') sampleWorld))
       = MetricsBody (fst (generateMetrics sampleEnv ''7d'' sampleWorld))
           (calculateSummary (fst (generateMetrics sampleEnv ''7d'' sampleWorld)))
           (timestamp (hd (fst (generateMetrics sampleEnv ''7d'' sampleWorld))))
           (timestamp (last (fst (generateMetrics sampleEnv ''7d'' sampleWorld))))
   \<and> status (fst (GET_metrics sampleEnv None sampleWorld)) = 200"
  using GET_metrics_status [of sampleEnv "Some ''7x''" sampleWorld]
    GET_metrics_status [of sampleEnv "Some ''7d''" sampleWorld]
    GET_metrics_status [of sampleEnv None sampleWorld]
  by (auto simp: validRanges_def)

text \<open>
  Claim C8 as stated fails for the request \<open>?timeRange=\<close>: the empty value is not one of
  the six, and the response has status 200.
\<close>

theorem GET_metrics_counterexample:
  "status (fst (GET_metrics sampleEnv (Some '''') sampleWorld)) = 200
   \<and> '''' \<notin> set validRanges"
  using GET_metrics_valid [of "''30d''" "Some ''''" sampleEnv sampleWorld]
  by (simp add: validRanges_def)

section \<open>Properties of the push transport\<close>

declare dataTick_def [simp] heartbeatTick_def [simp] onAbort_def [simp] consumerCancel_def [simp]

lemma runTransport_snoc:
  "runTransport E a w (es @ [e]) = transportStep E (runTransport E a w es) e"
  by (simp add: runTransport_def)

text \<open>
  A request whose signal fires after \<open>start\<close>, on a stream its consumer has not cancelled,
  is cleaned up: both intervals are cleared, \<open>close\<close> succeeds once, and no frame is
  enqueued afterwards.
\<close>

lemma transportStep_live:
  assumes "\<not> signalAborted s" "\<not> controllerClosed s" "closeCount s = 0" "e \<noteq> ConsumerCancel"
    "e \<noteq> Abort"
  shows "\<not> signalAborted (transportStep E s e) \<and> \<not> controllerClosed (transportStep E s e)
     \<and> closeCount (transportStep E s e) = 0"
  using assms by (cases e) (auto simp: Let_def split_def)

lemma runTransport_live:
  assumes "ConsumerCancel \<notin> set es" "Abort \<notin> set es"
  shows "\<not> signalAborted (runTransport E False w es)
     \<and> \<not> controllerClosed (runTransport E False w es)
     \<and> closeCount (runTransport E False w es) = 0"
  using assms
proof (induction es rule: rev_induct)
  case Nil
  show ?case by (simp add: runTransport_def startStream_def Let_def split_def)
next
  case (snoc e es)
  have e: "e \<noteq> ConsumerCancel" "e \<noteq> Abort" using snoc.prems by auto
  have "\<not> signalAborted (runTransport E False w es)
     \<and> \<not> controllerClosed (runTransport E False w es)
     \<and> closeCount (runTransport E False w es) = 0"
    using snoc by simp
  then show ?case
    unfolding runTransport_snoc using e by (intro transportStep_live) simp_all
qed

lemma transportStep_cleaned:
  assumes "signalAborted s" "\<not> dataTimerSet s" "\<not> heartbeatTimerSet s"
  shows "signalAborted (transportStep E s e) \<and> \<not> dataTimerSet (transportStep E s e)
     \<and> \<not> heartbeatTimerSet (transportStep E s e)
     \<and> closeCount (transportStep E s e) = closeCount s
     \<and> enqueued (transportStep E s e) = enqueued s
     \<and> uncaughtErrors (transportStep E s e) = uncaughtErrors s"
  using assms by (cases e) simp_all

lemma foldl_transportStep_cleaned:
  assumes "signalAborted s" "\<not> dataTimerSet s" "\<not> heartbeatTimerSet s"
  shows "signalAborted (foldl (transportStep E) s es) \<and> \<not> dataTimerSet (foldl (transportStep E) s es)
     \<and> \<not> heartbeatTimerSet (foldl (transportStep E) s es)
     \<and> closeCount (foldl (transportStep E) s es) = closeCount s
     \<and> enqueued (foldl (transportStep E) s es) = enqueued s
     \<and> uncaughtErrors (foldl (transportStep E) s es) = uncaughtErrors s"
  using assms
proof (induction es arbitrary: s)
  case Nil
  then show ?case by simp
next
  case (Cons e es)
  have 1: "signalAborted (transportStep E s e) \<and> \<not> dataTimerSet (transportStep E s e)
     \<and> \<not> heartbeatTimerSet (transportStep E s e)
     \<and> closeCount (transportStep E s e) = closeCount s
     \<and> enqueued (transportStep E s e) = enqueued s
     \<and> uncaughtErrors (transportStep E s e) = uncaughtErrors s"
    using Cons.prems by (rule transportStep_cleaned)
  then have "signalAborted (foldl (transportStep E) (transportStep E s e) es)
     \<and> \<not> dataTimerSet (foldl (transportStep E) (transportStep E s e) es)
     \<and> \<not> heartbeatTimerSet (foldl (transportStep E) (transportStep E s e) es)
     \<and> closeCount (foldl (transportStep E) (transportStep E s e) es)
         = closeCount (transportStep E s e)
     \<and> enqueued (foldl (transportStep E) (transportStep E s e) es)
         = enqueued (transportStep E s e)
     \<and> uncaughtErrors (foldl (transportStep E) (transportStep E s e) es)
         = uncaughtErrors (transportStep E s e)"
    by (intro Cons.IH) simp_all
  then show ?case using 1 by simp
qed

lemma abort_after_start:
  assumes "ConsumerCancel \<notin> set before" "Abort \<notin> set before"
  shows "\<not> dataTimerSet (runTransport E False w (before @ Abort # after))
   \<and> \<not> heartbeatTimerSet (runTransport E False w (before @ Abort # after))
   \<and> closeCount (runTransport E False w (before @ Abort # after)) = 1
   \<and> uncaughtErrors (runTransport E False w (before @ Abort # after))
       = uncaughtErrors (runTransport E False w before)
   \<and> enqueued (runTransport E False w (before @ Abort # after))
       = enqueued (runTransport E False w before)"
proof -
  let ?s = "runTransport E False w before"
  let ?a = "onAbort ?s"
  have live: "\<not> signalAborted ?s \<and> \<not> controllerClosed ?s \<and> closeCount ?s = 0"
    using assms by (rule runTransport_live)
  have a: "signalAborted ?a" "\<not> dataTimerSet ?a" "\<not> heartbeatTimerSet ?a" "closeCount ?a = 1"
    "enqueued ?a = enqueued ?s" "uncaughtErrors ?a = uncaughtErrors ?s"
    using live by (simp_all add: Let_def)
  have r: "runTransport E False w (before @ Abort # after) = foldl (transportStep E) ?a after"
    by (simp add: runTransport_def)
  show ?thesis
    unfolding r using foldl_transportStep_cleaned [OF a(1-3), of E after] a(4-6) by simp
qed

text \<open>
  Once the consumer has cancelled the stream, the next heartbeat throws out of its timer
  callback, and the listener of a later abort clears the intervals but its \<open>close\<close> throws.
\<close>

lemma consumer_cancel_run:
  "dataTimerSet (runTransport E False w [ConsumerCancel, HeartbeatTick])
   \<and> heartbeatTimerSet (runTransport E False w [ConsumerCancel, HeartbeatTick])
   \<and> uncaughtErrors (runTransport E False w [ConsumerCancel, HeartbeatTick]) = 1
   \<and> closeCount (runTransport E False w [ConsumerCancel, HeartbeatTick, Abort]) = 0
   \<and> uncaughtErrors (runTransport E False w [ConsumerCancel, HeartbeatTick, Abort]) = 2"
  by (simp add: runTransport_def startStream_def Let_def split_def)

lemma transportStep_deaf:
  assumes "signalAborted s" "dataTimerSet s" "heartbeatTimerSet s" "closeCount s = 0"
  shows "signalAborted (transportStep E s e) \<and> dataTimerSet (transportStep E s e)
     \<and> heartbeatTimerSet (transportStep E s e) \<and> closeCount (transportStep E s e) = 0"
  using assms by (cases e) (simp_all add: Let_def split_def)

lemma transportStep_emits:
  assumes "dataTimerSet s" "heartbeatTimerSet s" "\<not> controllerClosed s"
  shows "length (enqueued (transportStep E s DataTick)) = Suc (length (enqueued s))"
    and "length (enqueued (transportStep E s HeartbeatTick)) = Suc (length (enqueued s))"
  using assms by (simp_all add: Let_def split_def)

text \<open>
  Claim C9 fails in the code for a request whose signal is already aborted when \<open>GET\<close> runs.
  \<open>start\<close> adds its listener to a signal that never fires again, so in every run both
  intervals stay set and \<open>close\<close> is never called; the connection message, a metric message
  and a heartbeat are all enqueued after the cancellation.
\<close>

theorem transport_aborted_request:
  "signalAborted (runTransport E True w es)
   \<and> dataTimerSet (runTransport E True w es)
   \<and> heartbeatTimerSet (runTransport E True w es)
   \<and> closeCount (runTransport E True w es) = 0
   \<and> length (enqueued (runTransport E True w [])) = 1
   \<and> length (enqueued (runTransport E True w [DataTick, HeartbeatTick])) = 3
   \<and> last (enqueued (runTransport E True w [DataTick, HeartbeatTick])) = HeartbeatFrame"
proof -
  have inv: "signalAborted (runTransport E True w es)
     \<and> dataTimerSet (runTransport E True w es)
     \<and> heartbeatTimerSet (runTransport E True w es)
     \<and> closeCount (runTransport E True w es) = 0"
  proof (induction es rule: rev_induct)
    case Nil
    show ?case by (simp add: runTransport_def startStream_def Let_def split_def)
  next
    case (snoc e es)
    then show ?case unfolding runTransport_snoc by (intro transportStep_deaf) simp_all
  qed
  have 1: "length (enqueued (runTransport E True w [])) = 1"
    by (simp add: runTransport_def startStream_def Let_def split_def)
  have 2: "length (enqueued (runTransport E True w [DataTick, HeartbeatTick])) = 3"
    by (simp add: runTransport_def startStream_def Let_def split_def)
  have 3: "last (enqueued (runTransport E True w [DataTick, HeartbeatTick])) = HeartbeatFrame"
    by (simp add: runTransport_def startStream_def Let_def split_def)
  from inv 1 2 3 show ?thesis by blast
qed
section \<open>Properties of the stream consumer\<close>

lemmas hook_defs = onopen_def onmessage_def onerror_def reconnectTimerFires_def disconnect_def
  realTimeEffect_def unmount_def connectSSE_def updateConnectionStatus_def reportError_def
  fetchStart_def fetchFail_def fetchResolved_def

lemma slice_last50_short: "length xs \<le> 50 \<Longrightarrow> slice xs (- 50) None = xs"
  by (simp add: slice_def relIndex_def)

lemma slice_last50_long:
  "50 \<le> length xs \<Longrightarrow> slice xs (- 50) None = drop (length xs - 50) xs"
  by (simp add: slice_def relIndex_def max_def nat_diff_distrib')

lemma length_slice_last50: "length (slice xs (- 50) None) \<le> 50"
  by (cases "length xs \<le> 50") (simp_all add: slice_last50_short slice_last50_long)

lemma onmessage_metric:
  assumes "isMounted s" "eventSourceOpen s"
  shows "hookStep s (SourceMessage (Some (MetricMessage m t)))
     = s\<lparr>metrics := slice (metrics s @ [m]) (- 50) None\<rparr>"
  using assms by (simp add: onmessage_def)

lemma runHook_snoc: "runHook (es @ [e]) = hookStep (runHook es) e"
  by (simp add: runHook_def)

lemma runHook_append: "runHook (es @ es') = foldl hookStep (runHook es) es'"
  by (simp add: runHook_def)

text \<open>
  A reconnect timer is armed only while no source is open, so a single timer slot models
  \<open>reconnectTimeoutRef\<close> faithfully: \<open>onerror\<close> never overwrites an armed timer.
\<close>

lemma hookStep_inv:
  assumes "eventSourceOpen s \<longrightarrow> reconnectTimeout s = None"
    and "\<not> effectActive s \<longrightarrow> reconnectTimeout s = None \<and> \<not> eventSourceOpen s"
  shows "(eventSourceOpen (hookStep s e) \<longrightarrow> reconnectTimeout (hookStep s e) = None)
     \<and> (\<not> effectActive (hookStep s e) \<longrightarrow>
          reconnectTimeout (hookStep s e) = None \<and> \<not> eventSourceOpen (hookStep s e))"
  using assms
  by (cases e) (auto simp: hook_defs Let_def split: option.splits sseMessage.splits body.splits)

lemma runHook_inv:
  "(eventSourceOpen (runHook es) \<longrightarrow> reconnectTimeout (runHook es) = None)
   \<and> (\<not> effectActive (runHook es) \<longrightarrow>
        reconnectTimeout (runHook es) = None \<and> \<not> eventSourceOpen (runHook es))"
proof (induction es rule: rev_induct)
  case Nil
  show ?case by (simp add: runHook_def initialHook_def)
next
  case (snoc e es)
  show ?case unfolding runHook_snoc using snoc.IH by (intro hookStep_inv) simp_all
qed

text \<open>
  The stream path keeps the window: after every metric stream message the window holds at
  most 50 points; when the message arrives with the window at 50 points, the new point is
  appended and the single oldest point is removed; below 50 points it is only appended; a
  message that does not parse leaves the window unchanged.
\<close>

lemma onmessage_window:
  assumes "isMounted s" "eventSourceOpen s"
  shows "length (metrics (hookStep s (SourceMessage (Some (MetricMessage m t))))) \<le> 50
     \<and> (length (metrics s) = 50 \<longrightarrow>
          metrics (hookStep s (SourceMessage (Some (MetricMessage m t)))) = tl (metrics s) @ [m])
     \<and> (length (metrics s) < 50 \<longrightarrow>
          metrics (hookStep s (SourceMessage (Some (MetricMessage m t)))) = metrics s @ [m])
     \<and> metrics (hookStep s (SourceMessage None)) = metrics s"
proof -
  have r: "metrics (hookStep s (SourceMessage (Some (MetricMessage m t))))
      = slice (metrics s @ [m]) (- 50) None"
    by (simp only: onmessage_metric [OF assms]) simp
  have 1: "length (metrics (hookStep s (SourceMessage (Some (MetricMessage m t))))) \<le> 50"
    unfolding r by (rule length_slice_last50)
  have 2: "length (metrics s) = 50 \<longrightarrow>
      metrics (hookStep s (SourceMessage (Some (MetricMessage m t)))) = tl (metrics s) @ [m]"
  proof
    assume l: "length (metrics s) = 50"
    then have "slice (metrics s @ [m]) (- 50) None = drop 1 (metrics s @ [m])"
      by (simp add: slice_last50_long)
    also have "\<dots> = tl (metrics s) @ [m]" using l by (cases "metrics s") simp_all
    finally show "metrics (hookStep s (SourceMessage (Some (MetricMessage m t)))) = tl (metrics s) @ [m]"
      by (simp only: r)
  qed
  have 3: "length (metrics s) < 50 \<longrightarrow>
      metrics (hookStep s (SourceMessage (Some (MetricMessage m t)))) = metrics s @ [m]"
    unfolding r by (simp add: slice_last50_short)
  have 4: "metrics (hookStep s (SourceMessage None)) = metrics s"
    by (simp add: onmessage_def)
  from 1 2 3 4 show ?thesis by blast
qed

lemma streamedPoints_Suc:
  "streamedPoints (Suc n)
     = streamedPoints n @ [SourceMessage (Some (MetricMessage (point (int n) 100 10 50) (int n)))]"
  by (simp add: streamedPoints_def)

lemma runHook_streamedPoints:
  "n \<le> 50 \<Longrightarrow>
   isMounted (runHook (streamedPoints n)) \<and> eventSourceOpen (runHook (streamedPoints n))
   \<and> metrics (runHook (streamedPoints n)) = map (\<lambda>i. point (int i) 100 10 50) [0..<n]"
proof (induction n)
  case 0
  show ?case
    by (simp add: streamedPoints_def runHook_def initialHook_def hook_defs)
next
  case (Suc n)
  then have IH: "isMounted (runHook (streamedPoints n))" "eventSourceOpen (runHook (streamedPoints n))"
    "metrics (runHook (streamedPoints n)) = map (\<lambda>i. point (int i) 100 10 50) [0..<n]"
    by simp_all
  have l: "length (metrics (runHook (streamedPoints n)) @ [point (int n) 100 10 50]) \<le> 50"
    using Suc.prems IH(3) by simp
  have "runHook (streamedPoints (Suc n))
      = (runHook (streamedPoints n))\<lparr>metrics :=
           metrics (runHook (streamedPoints n)) @ [point (int n) 100 10 50]\<rparr>"
    by (simp only: streamedPoints_Suc runHook_snoc onmessage_metric [OF IH(1,2)]
        slice_last50_short [OF l])
  then show ?case using IH by simp
qed

lemma onmessage_window_run:
  "isMounted (runHook (streamedPoints 50)) \<and> eventSourceOpen (runHook (streamedPoints 50))
   \<and> length (metrics (runHook (streamedPoints 50))) = 50
   \<and> hd (metrics (runHook (streamedPoints 50))) = point 0 100 10 50
   \<and> length (metrics (hookStep (runHook (streamedPoints 50))
        (SourceMessage (Some (MetricMessage (point 50 100 10 50) 50))))) \<le> 50
   \<and> metrics (hookStep (runHook (streamedPoints 50))
        (SourceMessage (Some (MetricMessage (point 50 100 10 50) 50))))
      = tl (metrics (runHook (streamedPoints 50))) @ [point 50 100 10 50]
   \<and> metrics (hookStep (runHook (streamedPoints 2))
        (SourceMessage (Some (MetricMessage (point 2 100 10 50) 2))))
      = [point 0 100 10 50, point 1 100 10 50, point 2 100 10 50]"
proof -
  have s: "isMounted (runHook (streamedPoints 50))" "eventSourceOpen (runHook (streamedPoints 50))"
    "metrics (runHook (streamedPoints 50)) = map (\<lambda>i. point (int i) 100 10 50) [0..<50]"
    using runHook_streamedPoints [of 50] by simp_all
  have l: "length (metrics (runHook (streamedPoints 50))) = 50" by (simp add: s(3))
  have h: "hd (metrics (runHook (streamedPoints 50))) = point 0 100 10 50"
    by (simp add: s(3) upt_rec [of 0 50])
  have t: "isMounted (runHook (streamedPoints 2))" "eventSourceOpen (runHook (streamedPoints 2))"
    "metrics (runHook (streamedPoints 2)) = [point 0 100 10 50, point 1 100 10 50]"
    using runHook_streamedPoints [of 2] by (simp_all add: upt_rec)
  show ?thesis
    using onmessage_window [OF s(1,2), of "point 50 100 10 50" 50]
      onmessage_window [OF t(1,2), of "point 2 100 10 50" 2] s(1,2) l h t(3)
    by simp
qed

text \<open>
  Claim C2 fails in the code on the history path. \<open>fetchMetrics\<close> installs the whole
  \<open>data\<close> array of the response with \<open>setMetrics(metricsWithDates)\<close>, without the
  \<open>slice(-50)\<close> of the stream path: after the fetch for the time range \<open>1y\<close> or \<open>all\<close> the
  window holds 52 points. The next metric message then cuts it to 50 by removing the three
  oldest points, not one.
\<close>

theorem window_after_fetch:
  "length (metrics (runHook [FetchStart,
      FetchResolved thrown (fst (GET_metrics E (Some ''1y'') w))])) = 52
   \<and> length (metrics (runHook [FetchStart,
      FetchResolved thrown (fst (GET_metrics E (Some ''all'') w))])) = 52
   \<and> metrics (runHook [RealTimeEffect True None, SourceOpen, FetchStart,
        FetchResolved thrown (fst (GET_metrics E (Some ''1y'') w)),
        SourceMessage (Some (MetricMessage m t))])
      = drop 3 (fst (generateMetrics E ''1y'' w) @ [m])"
proof -
  have v: "''1y'' \<in> set validRanges" "''all'' \<in> set validRanges"
    by (simp_all add: validRanges_def)
  have y: "length (fst (generateMetrics E ''1y'' w)) = 52"
    by (simp add: generateMetrics_length intervalAndPoints_def)
  have a: "length (fst (generateMetrics E ''all'' w)) = 52"
    by (simp add: generateMetrics_length intervalAndPoints_def)
  have 1: "length (metrics (runHook [FetchStart,
      FetchResolved thrown (fst (GET_metrics E (Some ''1y'') w))])) = 52"
    using GET_metrics_valid [OF v(1), of "Some ''1y''" E w] y
    by (simp add: runHook_def initialHook_def fetchStart_def fetchResolved_def)
  have 2: "length (metrics (runHook [FetchStart,
      FetchResolved thrown (fst (GET_metrics E (Some ''all'') w))])) = 52"
    using GET_metrics_valid [OF v(2), of "Some ''all''" E w] a
    by (simp add: runHook_def initialHook_def fetchStart_def fetchResolved_def)
  have l: "50 \<le> length (fst (generateMetrics E ''1y'' w) @ [m])" using y by simp
  have "slice (fst (generateMetrics E ''1y'' w) @ [m]) (- 50) None
      = drop (length (fst (generateMetrics E ''1y'' w) @ [m]) - 50)
          (fst (generateMetrics E ''1y'' w) @ [m])"
    using l by (rule slice_last50_long)
  then have d: "slice (fst (generateMetrics E ''1y'' w) @ [m]) (- 50) None
      = drop 3 (fst (generateMetrics E ''1y'' w) @ [m])"
    using y by simp
  have 3: "metrics (runHook [RealTimeEffect True None, SourceOpen, FetchStart,
        FetchResolved thrown (fst (GET_metrics E (Some ''1y'') w)),
        SourceMessage (Some (MetricMessage m t))])
      = drop 3 (fst (generateMetrics E ''1y'' w) @ [m])"
    using GET_metrics_valid [OF v(1), of "Some ''1y''" E w] d
    by (simp add: runHook_def initialHook_def fetchStart_def fetchResolved_def hook_defs)
  from 1 2 3 show ?thesis by blast
qed

lemma onerror_exhausted:
  assumes "isMounted s" "eventSourceOpen s"
    and "maxReconnectAttempts SSE_CONFIG \<le> reconnectAttempts s"
  shows "hookStep s SourceError =
     s\<lparr>eventSourceOpen := False, connectionStatus := ErrorStatus,
       reportedStatus := reportedStatus s @ [Disconnected, ErrorStatus],
       error := Some STREAM_DISCONNECTED,
       reportedErrors := reportedErrors s @ [STREAM_DISCONNECTED]\<rparr>"
  using assms by (simp add: onerror_def updateConnectionStatus_def reportError_def Let_def)

lemma onerror_retry:
  assumes "isMounted s" "eventSourceOpen s"
    and "reconnectAttempts s < maxReconnectAttempts SSE_CONFIG"
  shows "hookStep s SourceError =
     s\<lparr>eventSourceOpen := False, connectionStatus := Reconnecting,
       reportedStatus := reportedStatus s @ [Disconnected, Reconnecting],
       reconnectTimeout := Some (reconnectInterval SSE_CONFIG * 2 ^ reconnectAttempts s)\<rparr>"
  using assms by (simp add: onerror_def updateConnectionStatus_def Let_def)

lemma timer_reconnects:
  assumes "reconnectTimeout s = Some d"
  shows "hookStep s (ReconnectTimer None) =
     s\<lparr>reconnectTimeout := None, reconnectAttempts := Suc (reconnectAttempts s),
       eventSourceOpen := True\<rparr>"
  using assms by (simp add: reconnectTimerFires_def connectSSE_def)

lemma backoff_schedule:
  "map (\<lambda>r. reconnectInterval SSE_CONFIG * 2 ^ r) [0..<5] = [3000, 6000, 12000, 24000, 48000]"
proof -
  have "[0..<5] = [0, 1, 2, 3, 4]" by (simp add: upt_rec)
  then show ?thesis by (simp add: SSE_CONFIG_def)
qed

text \<open>
  Claim C3. For every retry count \<open>r\<close> a reconnect delay scheduled by the consumer equals
  \<open>reconnectInterval * 2 ^ r\<close>; one is scheduled whenever the source faults with \<open>r\<close> below
  \<open>maxReconnectAttempts\<close>, and the timer's callback increments the counter by exactly one.
  With the interval of 3000 ms the delays for the counts 0 to 4 are 3000, 6000, 12000,
  24000 and 48000 ms.
\<close>

theorem reconnect_backoff:
  assumes "isMounted s" "eventSourceOpen s" "reconnectTimeout s = None"
  shows "(\<forall>d. reconnectTimeout (hookStep s SourceError) = Some d \<longrightarrow>
            d = reconnectInterval SSE_CONFIG * 2 ^ reconnectAttempts s)
     \<and> (reconnectAttempts s < maxReconnectAttempts SSE_CONFIG \<longrightarrow>
            reconnectTimeout (hookStep s SourceError)
              = Some (reconnectInterval SSE_CONFIG * 2 ^ reconnectAttempts s)
            \<and> connectionStatus (hookStep s SourceError) = Reconnecting
            \<and> reconnectAttempts (hookStep (hookStep s SourceError) (ReconnectTimer thrown))
              = reconnectAttempts s + 1)
     \<and> reconnectAttempts (hookStep s SourceError) = reconnectAttempts s
     \<and> map (\<lambda>r. reconnectInterval SSE_CONFIG * 2 ^ r) [0..<5]
           = [3000, 6000, 12000, 24000, 48000]"
  using assms backoff_schedule
  by (simp add: onerror_def reconnectTimerFires_def connectSSE_def
      updateConnectionStatus_def reportError_def Let_def split: option.splits)

lemma failedAttempts_Suc:
  "failedAttempts (Suc n) = failedAttempts n @ [SourceError, ReconnectTimer None]"
proof -
  have "replicate (Suc n) [SourceError, ReconnectTimer None]
      = replicate n [SourceError, ReconnectTimer None] @ [[SourceError, ReconnectTimer None]]"
    by (simp add: replicate_append_same)
  then show ?thesis by (simp only: failedAttempts_def concat_append) simp
qed

lemma runHook_append2: "runHook (es @ [a, b]) = hookStep (hookStep (runHook es) a) b"
  by (simp add: runHook_def)

lemma runHook_failedAttempts:
  "n \<le> maxReconnectAttempts SSE_CONFIG \<Longrightarrow>
   isMounted (runHook (failedAttempts n)) \<and> eventSourceOpen (runHook (failedAttempts n))
   \<and> reconnectTimeout (runHook (failedAttempts n)) = None
   \<and> reconnectAttempts (runHook (failedAttempts n)) = n
   \<and> reportedErrors (runHook (failedAttempts n)) = []
   \<and> effectActive (runHook (failedAttempts n))"
proof (induction n)
  case 0
  show ?case
    by (simp add: failedAttempts_def runHook_def initialHook_def hook_defs)
next
  case (Suc n)
  then have IH: "isMounted (runHook (failedAttempts n))" "eventSourceOpen (runHook (failedAttempts n))"
    "reconnectTimeout (runHook (failedAttempts n)) = None"
    "reconnectAttempts (runHook (failedAttempts n)) = n"
    "reportedErrors (runHook (failedAttempts n)) = []"
    "effectActive (runHook (failedAttempts n))"
    by simp_all
  have "n < maxReconnectAttempts SSE_CONFIG" using Suc.prems by simp
  then show ?case
    using IH by (simp add: failedAttempts_Suc runHook_append2 hook_defs Let_def)
qed

theorem reconnect_backoff_witness:
  "isMounted (runHook (failedAttempts 4)) \<and> eventSourceOpen (runHook (failedAttempts 4))
   \<and> reconnectTimeout (runHook (failedAttempts 4)) = None
   \<and> reconnectAttempts (runHook (failedAttempts 4)) < maxReconnectAttempts SSE_CONFIG
   \<and> reconnectTimeout (hookStep (runHook (failedAttempts 4)) SourceError) = Some 48000
   \<and> connectionStatus (hookStep (runHook (failedAttempts 4)) SourceError) = Reconnecting
   \<and> reconnectAttempts (hookStep (hookStep (runHook (failedAttempts 4)) SourceError)
        (ReconnectTimer None)) = 5
   \<and> reconnectTimeout (hookStep (runHook (failedAttempts 0)) SourceError) = Some 3000"
proof -
  have a: "isMounted (runHook (failedAttempts 4))" "eventSourceOpen (runHook (failedAttempts 4))"
    "reconnectTimeout (runHook (failedAttempts 4)) = None"
    "reconnectAttempts (runHook (failedAttempts 4)) = 4"
    using runHook_failedAttempts [of 4] by (simp_all add: SSE_CONFIG_def)
  have b: "isMounted (runHook (failedAttempts 0))" "eventSourceOpen (runHook (failedAttempts 0))"
    "reconnectTimeout (runHook (failedAttempts 0)) = None"
    "reconnectAttempts (runHook (failedAttempts 0)) = 0"
    using runHook_failedAttempts [of 0] by (simp_all add: SSE_CONFIG_def)
  have c: "reconnectAttempts (runHook (failedAttempts 4)) < maxReconnectAttempts SSE_CONFIG"
    "reconnectAttempts (runHook (failedAttempts 0)) < maxReconnectAttempts SSE_CONFIG"
    by (simp_all add: a(4) b(4) SSE_CONFIG_def)
  have A: "reconnectTimeout (hookStep (runHook (failedAttempts 4)) SourceError)
        = Some (reconnectInterval SSE_CONFIG * 2 ^ reconnectAttempts (runHook (failedAttempts 4)))
      \<and> connectionStatus (hookStep (runHook (failedAttempts 4)) SourceError) = Reconnecting
      \<and> reconnectAttempts (hookStep (hookStep (runHook (failedAttempts 4)) SourceError)
            (ReconnectTimer None)) = reconnectAttempts (runHook (failedAttempts 4)) + 1"
    using reconnect_backoff [OF a(1,2,3), of None] c(1) by blast
  have B: "reconnectTimeout (hookStep (runHook (failedAttempts 0)) SourceError)
        = Some (reconnectInterval SSE_CONFIG * 2 ^ reconnectAttempts (runHook (failedAttempts 0)))"
    using reconnect_backoff [OF b(1,2,3), of None] c(2) by blast
  show ?thesis
    using A B a(1,2,3) c(1) by (simp add: a(4) b(4) SSE_CONFIG_def del: hookStep.simps)
qed

lemma streamEvent_error_state:
  assumes "\<not> eventSourceOpen s" "reconnectTimeout s = None" "streamEvent e"
  shows "hookStep s e = s"
  using assms by (cases e) simp_all

lemma streamEvents_error_state:
  assumes "\<not> eventSourceOpen s" "reconnectTimeout s = None" "list_all streamEvent es"
  shows "foldl hookStep s es = s"
  using assms by (induction es) (simp_all add: streamEvent_error_state)

text \<open>
  Claim C4, as amended. When the source faults and the retry counter has reached
  \<open>maxReconnectAttempts\<close> (the initial connection and \<open>maxReconnectAttempts\<close> reconnect
  attempts have failed), the connection state becomes \<open>error\<close>, no reconnect timer is
  armed, and the failure \<open>STREAM_DISCONNECTED\<close> is surfaced through the \<open>error\<close> state and
  the \<open>onError\<close> callback. No event of the stream or of the reconnect timer changes the
  state afterwards: it is left only by the caller (\<open>disconnect\<close>, or a new run of the
  real-time effect, which resets the counter).
\<close>

theorem retries_exhausted:
  assumes "isMounted s" "eventSourceOpen s" "reconnectTimeout s = None"
    and "maxReconnectAttempts SSE_CONFIG \<le> reconnectAttempts s"
    and "list_all streamEvent es"
  shows "connectionStatus (hookStep s SourceError) = ErrorStatus
     \<and> reconnectTimeout (hookStep s SourceError) = None
     \<and> \<not> eventSourceOpen (hookStep s SourceError)
     \<and> error (hookStep s SourceError) = Some STREAM_DISCONNECTED
     \<and> reportedErrors (hookStep s SourceError) = reportedErrors s @ [STREAM_DISCONNECTED]
     \<and> foldl hookStep (hookStep s SourceError) es = hookStep s SourceError"
proof -
  have a: "connectionStatus (hookStep s SourceError) = ErrorStatus"
    "reconnectTimeout (hookStep s SourceError) = None"
    "\<not> eventSourceOpen (hookStep s SourceError)"
    "error (hookStep s SourceError) = Some STREAM_DISCONNECTED"
    "reportedErrors (hookStep s SourceError) = reportedErrors s @ [STREAM_DISCONNECTED]"
    using assms(3) by (simp_all add: onerror_exhausted [OF assms(1,2,4)] del: hookStep.simps)
  have "foldl hookStep (hookStep s SourceError) es = hookStep s SourceError"
    using a(3) a(2) assms(5) by (rule streamEvents_error_state)
  then show ?thesis using a by simp
qed

theorem retries_exhausted_witness:
  "isMounted (runHook (failedAttempts 5)) \<and> eventSourceOpen (runHook (failedAttempts 5))
   \<and> reconnectTimeout (runHook (failedAttempts 5)) = None
   \<and> maxReconnectAttempts SSE_CONFIG \<le> reconnectAttempts (runHook (failedAttempts 5))
   \<and> list_all streamEvent [ReconnectTimer None, SourceOpen, SourceMessage None, SourceError]
   \<and> connectionStatus (runHook (failedAttempts 5 @ [SourceError])) = ErrorStatus
   \<and> reconnectTimeout (runHook (failedAttempts 5 @ [SourceError])) = None
   \<and> error (runHook (failedAttempts 5 @ [SourceError])) = Some STREAM_DISCONNECTED
   \<and> reportedErrors (runHook (failedAttempts 5 @ [SourceError])) = [STREAM_DISCONNECTED]
   \<and> foldl hookStep (runHook (failedAttempts 5 @ [SourceError]))
        [ReconnectTimer None, SourceOpen, SourceMessage None, SourceError]
      = runHook (failedAttempts 5 @ [SourceError])"
proof -
  have a: "isMounted (runHook (failedAttempts 5))" "eventSourceOpen (runHook (failedAttempts 5))"
    "reconnectTimeout (runHook (failedAttempts 5)) = None"
    "reconnectAttempts (runHook (failedAttempts 5)) = 5"
    "reportedErrors (runHook (failedAttempts 5)) = []"
    using runHook_failedAttempts [of 5] by (simp_all add: SSE_CONFIG_def)
  have m: "maxReconnectAttempts SSE_CONFIG \<le> reconnectAttempts (runHook (failedAttempts 5))"
    by (simp add: a(4) SSE_CONFIG_def)
  have l: "list_all streamEvent [ReconnectTimer None, SourceOpen, SourceMessage None, SourceError]"
    by simp
  show ?thesis
    using retries_exhausted [OF a(1,2,3) m l] a(1,2,3,5) m l
    by (simp add: runHook_snoc del: hookStep.simps)
qed

lemma reenabled_after_error:
  assumes "isMounted s" "effectActive s"
  shows "hookStep (hookStep (hookStep s (RealTimeEffect False None)) (RealTimeEffect True None))
            SourceError
     = s\<lparr>eventSourceOpen := False, reconnectTimeout := Some (reconnectInterval SSE_CONFIG),
         connectionStatus := Reconnecting, reconnectAttempts := 0, effectActive := True,
         reportedStatus := reportedStatus s
           @ [Disconnected, Disconnected, Disconnected, Disconnected, Reconnecting]\<rparr>"
  using assms by (simp add: hook_defs Let_def SSE_CONFIG_def)

text \<open>
  Claim C4 as stated fails. The \<open>error\<close> state reached after six consecutive failures is
  left by the caller's \<open>disconnect\<close>, and after the real-time effect has been switched off
  and on again a fault schedules a reconnect after 3000 ms. After five consecutive failures
  (\<open>maxReconnectAttempts\<close>) the state is still \<open>reconnecting\<close>, with the fifth reconnect
  scheduled after 48000 ms.
\<close>

theorem error_state_counterexample:
  "connectionStatus (runHook (failedAttempts 5 @ [SourceError])) = ErrorStatus
   \<and> connectionStatus (runHook (failedAttempts 5 @ [SourceError, CallDisconnect])) = Disconnected
   \<and> connectionStatus (runHook (failedAttempts 5 @
        [SourceError, RealTimeEffect False None, RealTimeEffect True None, SourceError]))
      = Reconnecting
   \<and> reconnectTimeout (runHook (failedAttempts 5 @
        [SourceError, RealTimeEffect False None, RealTimeEffect True None, SourceError]))
      = Some 3000
   \<and> connectionStatus (runHook (failedAttempts 4 @ [SourceError])) = Reconnecting
   \<and> reconnectTimeout (runHook (failedAttempts 4 @ [SourceError])) = Some 48000"
proof -
  have a: "isMounted (runHook (failedAttempts 5))" "eventSourceOpen (runHook (failedAttempts 5))"
    "reconnectAttempts (runHook (failedAttempts 5)) = 5"
    "effectActive (runHook (failedAttempts 5))"
    using runHook_failedAttempts [of 5] by (simp_all add: SSE_CONFIG_def)
  have b: "isMounted (runHook (failedAttempts 4))" "eventSourceOpen (runHook (failedAttempts 4))"
    "reconnectAttempts (runHook (failedAttempts 4)) = 4"
    using runHook_failedAttempts [of 4] by (simp_all add: SSE_CONFIG_def)
  have m: "maxReconnectAttempts SSE_CONFIG \<le> reconnectAttempts (runHook (failedAttempts 5))"
    by (simp add: a(3) SSE_CONFIG_def)
  have n: "reconnectAttempts (runHook (failedAttempts 4)) < maxReconnectAttempts SSE_CONFIG"
    by (simp add: b(3) SSE_CONFIG_def)
  define E where "E = hookStep (runHook (failedAttempts 5)) SourceError"
  have E: "connectionStatus E = ErrorStatus" "isMounted E" "effectActive E"
    unfolding E_def using a(1,4)
    by (simp_all add: onerror_exhausted [OF a(1,2) m] del: hookStep.simps)
  have 1: "runHook (failedAttempts 5 @ [SourceError]) = E"
    by (simp add: runHook_snoc E_def del: hookStep.simps)
  have 2: "runHook (failedAttempts 5 @ [SourceError, CallDisconnect]) = hookStep E CallDisconnect"
    by (simp add: runHook_append2 E_def del: hookStep.simps)
  have 3: "runHook (failedAttempts 5 @
        [SourceError, RealTimeEffect False None, RealTimeEffect True None, SourceError])
      = hookStep (hookStep (hookStep E (RealTimeEffect False None)) (RealTimeEffect True None))
            SourceError"
    by (simp add: runHook_append E_def del: hookStep.simps)
  have 4: "connectionStatus (hookStep E CallDisconnect) = Disconnected"
    by (simp add: disconnect_def updateConnectionStatus_def)
  have 5: "runHook (failedAttempts 4 @ [SourceError])
      = hookStep (runHook (failedAttempts 4)) SourceError"
    by (simp add: runHook_snoc del: hookStep.simps)
  show ?thesis
    unfolding 1 2 3 5 reenabled_after_error [OF E(2,3)] onerror_retry [OF b(1,2) n]
    using E(1) 4 by (simp add: SSE_CONFIG_def b(3))
qed


end
